theory Spec2Isabelle
  imports Complex_Main "HOL-Library.Multiset"
begin

section \<open>Tables\<close>

text \<open>
  The program (\<^verbatim>\<open>src/analysis.py\<close>) is a pipeline of pandas calls.  A table is modelled
  with the parts of a DataFrame that the program can observe: the ordered column labels and
  the rows, each row carrying its index label and one cell per column.

  A cell is missing (\<open>NaN\<close>), a number or a text.  A number is a finite value, kept exact
  as a rational (no rounding is modelled), or one of the two infinities of a float column.
  Boolean columns are not modelled: the files covered hold no boolean, see \<open>wf_csv\<close>.
\<close>

datatype num = Fin rat | PInf | NInf

datatype cell = NaN | Num num | Str string

datatype error =
    KeyError "cell list"
  | ValueError string
  | IntCastingNaNError
  | FileNotFoundError string
  | OSError string

record frame =
  columns :: "cell list"
  rows :: "(nat \<times> cell list) list"

definition wf_frame :: "frame \<Rightarrow> bool" where
  "wf_frame df \<longleftrightarrow>
     distinct (columns df) \<and> list_all (\<lambda>r. length (snd r) = length (columns df)) (rows df)"

fun col_pos :: "cell \<Rightarrow> cell list \<Rightarrow> nat option" where
  "col_pos c [] = None"
| "col_pos c (x # xs) = (if x = c then Some 0 else map_option Suc (col_pos c xs))"

text \<open>\<^verbatim>\<open>df[c]\<close>: the cells of one column, \<^verbatim>\<open>KeyError\<close> when the label is absent.\<close>

definition getitem :: "frame \<Rightarrow> cell \<Rightarrow> error + cell list" where
  "getitem df c =
     (case col_pos c (columns df) of
        None \<Rightarrow> Inl (KeyError [c])
      | Some i \<Rightarrow> Inr (map (\<lambda>r. snd r ! i) (rows df)))"

text \<open>\<^verbatim>\<open>df[mask]\<close>: the rows whose mask entry is true, with their index labels.\<close>

definition getitem_mask :: "frame \<Rightarrow> bool list \<Rightarrow> frame" where
  "getitem_mask df keep = df\<lparr>rows := map fst (filter snd (zip (rows df) keep))\<rparr>"

text \<open>The cell of a row under a label (missing when the label is absent).\<close>

definition lookup_cell :: "cell list \<Rightarrow> cell list \<Rightarrow> cell \<Rightarrow> cell" where
  "lookup_cell labels r c = (case col_pos c labels of Some i \<Rightarrow> r ! i | None \<Rightarrow> NaN)"

text \<open>\<^verbatim>\<open>df[[c1, ..., cn]]\<close>: projection, \<^verbatim>\<open>KeyError\<close> listing the absent labels.\<close>

definition getitem_list :: "frame \<Rightarrow> cell list \<Rightarrow> error + frame" where
  "getitem_list df cs =
     (case filter (\<lambda>c. c \<notin> set (columns df)) cs of
        m # ms \<Rightarrow> Inl (KeyError (m # ms))
      | [] \<Rightarrow>
          Inr \<lparr>columns = cs,
               rows = map (\<lambda>r. (fst r, map (lookup_cell (columns df) (snd r)) cs)) (rows df)\<rparr>)"

text \<open>
  \<^verbatim>\<open>df[c] = values\<close>: replaces the column when the label exists, appends it otherwise.
  The values are aligned with the rows by position (the program only assigns series
  derived from the same table).
\<close>

definition setitem :: "frame \<Rightarrow> cell \<Rightarrow> cell list \<Rightarrow> frame" where
  "setitem df c vs =
     (case col_pos c (columns df) of
        Some i \<Rightarrow> df\<lparr>rows := map (\<lambda>(r, v). (fst r, (snd r)[i := v])) (zip (rows df) vs)\<rparr>
      | None \<Rightarrow>
          \<lparr>columns = columns df @ [c],
           rows = map (\<lambda>(r, v). (fst r, snd r @ [v])) (zip (rows df) vs)\<rparr>)"

text \<open>\<^verbatim>\<open>df.dropna(subset=[c])\<close>: \<^verbatim>\<open>KeyError\<close> when the label is absent.\<close>

definition dropna_subset :: "frame \<Rightarrow> cell \<Rightarrow> error + frame" where
  "dropna_subset df c =
     (case col_pos c (columns df) of
        None \<Rightarrow> Inl (KeyError [c])
      | Some i \<Rightarrow> Inr (df\<lparr>rows := filter (\<lambda>r. snd r ! i \<noteq> NaN) (rows df)\<rparr>))"

text \<open>\<^verbatim>\<open>df.reset_index(drop=True)\<close>: the index becomes 0, 1, 2, ...\<close>

definition reset_index_drop :: "frame \<Rightarrow> frame" where
  "reset_index_drop df = df\<lparr>rows := zip [0 ..< length (rows df)] (map snd (rows df))\<rparr>"

section \<open>Filter and reshape\<close>

text \<open>
  The order in which a group-by sorts its keys: numbers by value, texts by code unit,
  numbers before texts.  Missing keys never reach the sort (the group-by drops them).
\<close>

fun num_le :: "num \<Rightarrow> num \<Rightarrow> bool" where
  "num_le NInf _ = True"
| "num_le _ PInf = True"
| "num_le (Fin a) (Fin b) = (a \<le> b)"
| "num_le _ _ = False"

fun str_le :: "string \<Rightarrow> string \<Rightarrow> bool" where
  "str_le [] _ = True"
| "str_le (c # cs) [] = False"
| "str_le (c # cs) (d # ds) =
     ((of_char c :: nat) < of_char d \<or> (c = d \<and> str_le cs ds))"

fun key_le :: "cell \<Rightarrow> cell \<Rightarrow> bool" where
  "key_le (Num a) (Num b) = num_le a b"
| "key_le (Num _) (Str _) = True"
| "key_le (Str _) (Num _) = False"
| "key_le (Str a) (Str b) = str_le a b"
| "key_le _ NaN = True"
| "key_le NaN _ = False"

fun insort_key_le :: "cell \<Rightarrow> cell list \<Rightarrow> cell list" where
  "insort_key_le k [] = [k]"
| "insort_key_le k (x # xs) = (if key_le k x then k # x # xs else x # insort_key_le k xs)"

definition sort_keys :: "cell list \<Rightarrow> cell list" where
  "sort_keys ks = foldr insort_key_le ks []"

text \<open>
  \<^verbatim>\<open>pivot_table(index=i, columns=c, values=v, aggfunc="first")\<close>, in the library's stages:
  group the rows by the pair (index key, column key), leaving out a row with a missing key;
  take the first entry of each group that is not missing (\<^verbatim>\<open>first\<close> skips missing entries);
  drop the groups whose entry is missing; spread the column keys into columns, over the
  sorted index keys, filling the cells that have no group with missing.  The groups are
  listed here in the order of their first row; the library lists them sorted, which does
  not reach the result, since the index keys and the column keys are sorted on their own.
\<close>

record pivot =
  pindex :: "cell list"
  pcolumns :: "cell list"
  pvalues :: "cell list list"

definition first_valid :: "(cell \<times> cell \<times> cell) list \<Rightarrow> cell \<times> cell \<Rightarrow> cell" where
  "first_valid long k =
     (case filter (\<lambda>(i, c, v). (i, c) = k \<and> v \<noteq> NaN) long of
        [] \<Rightarrow> NaN
      | (i, c, v) # _ \<Rightarrow> v)"

definition groupby_first :: "(cell \<times> cell \<times> cell) list \<Rightarrow> ((cell \<times> cell) \<times> cell) list" where
  "groupby_first long =
     (let keys = remdups (map (\<lambda>(i, c, v). (i, c))
                   (filter (\<lambda>(i, c, v). i \<noteq> NaN \<and> c \<noteq> NaN) long))
      in map (\<lambda>k. (k, first_valid long k)) keys)"

definition agg_first :: "(cell \<times> cell \<times> cell) list \<Rightarrow> ((cell \<times> cell) \<times> cell) list" where
  "agg_first long = filter (\<lambda>(k, x). x \<noteq> NaN) (groupby_first long)"

definition unstack :: "((cell \<times> cell) \<times> cell) list \<Rightarrow> pivot" where
  "unstack agged =
     (let idx = sort_keys (remdups (map (\<lambda>(k, x). fst k) agged));
          els = sort_keys (remdups (map (\<lambda>(k, x). snd k) agged))
      in \<lparr>pindex = idx, pcolumns = els,
          pvalues = map (\<lambda>y. map (\<lambda>e. case map_of agged (y, e) of
                                         Some x \<Rightarrow> x | None \<Rightarrow> NaN) els) idx\<rparr>)"

definition pivot_table_first :: "frame \<Rightarrow> cell \<Rightarrow> cell \<Rightarrow> cell \<Rightarrow> error + pivot" where
  "pivot_table_first df i c v =
     (case getitem df v of Inl e \<Rightarrow> Inl e | Inr vs \<Rightarrow>
      case getitem df i of Inl e \<Rightarrow> Inl e | Inr ys \<Rightarrow>
      case getitem df c of Inl e \<Rightarrow> Inl e | Inr cs \<Rightarrow>
        Inr (unstack (agg_first (zip ys (zip cs vs)))))"

text \<open>
  \<^verbatim>\<open>.reset_index()\<close> on the pivot: the index keys become the first column, under the
  index's name; \<^verbatim>\<open>ValueError\<close> when a column of that name exists already.
\<close>

fun label_text :: "cell \<Rightarrow> string" where
  "label_text (Str s) = s"
| "label_text _ = []"

definition reset_index :: "cell \<Rightarrow> pivot \<Rightarrow> error + frame" where
  "reset_index name p =
     (if name \<in> set (pcolumns p)
      then Inl (ValueError (''cannot insert '' @ label_text name @ '', already exists''))
      else Inr \<lparr>columns = name # pcolumns p,
                rows = zip [0 ..< length (pindex p)]
                         (map (\<lambda>(y, vs). y # vs) (zip (pindex p) (pvalues p)))\<rparr>)"

definition cols :: "cell list" where
  "cols = [Str ''Year'', Str ''Area harvested'', Str ''Yield'', Str ''Production'']"

text \<open>
  The \<^verbatim>\<open>rename\<close> call of the source maps each of the three names to itself and is left out.
\<close>

definition process_countries_data :: "frame \<Rightarrow> string \<Rightarrow> error + frame" where
  "process_countries_data df country =
     (case getitem df (Str ''Area'') of Inl e \<Rightarrow> Inl e | Inr area \<Rightarrow>
      case getitem_list (getitem_mask df (map (\<lambda>a. a = Str country) area))
             [Str ''Year'', Str ''Element'', Str ''Value''] of Inl e \<Rightarrow> Inl e | Inr country_df \<Rightarrow>
      case pivot_table_first country_df (Str ''Year'') (Str ''Element'') (Str ''Value'') of
        Inl e \<Rightarrow> Inl e | Inr p \<Rightarrow>
      case reset_index (Str ''Year'') p of Inl e \<Rightarrow> Inl e | Inr pivot_df \<Rightarrow>
        (let existing = filter (\<lambda>c. c \<in> set (columns pivot_df)) cols
         in getitem_list pivot_df existing))"

section \<open>What the source leaves to the libraries\<close>

text \<open>
  Four things the source delegates to pandas and numpy, taken as parameters:
  \<^item> \<open>to_float\<close>: the number that \<^verbatim>\<open>pd.to_numeric\<close> reads in a text (it may be an
    infinity), \<open>None\<close> when the text is not a number;
  \<^item> \<open>argsort\<close>: the sorting algorithm behind \<^verbatim>\<open>sort_values\<close>.  The call of the source
    does not pass \<^verbatim>\<open>kind\<close>, so the algorithm is the default \<^verbatim>\<open>quicksort\<close>, which the
    library documents as not stable;
  \<^item> \<open>cast_oob\<close>: the integer that the cast of \<^verbatim>\<open>astype(int)\<close> yields for a finite value
    outside the 64-bit range (platform-defined);
  \<^item> \<open>csv_number\<close>: the number that \<^verbatim>\<open>pd.read_csv\<close> reads in a field, \<open>None\<close> when the
    field is not a number.
\<close>

record lib =
  to_float :: "string \<Rightarrow> num option"
  argsort :: "cell list \<Rightarrow> nat list"
  cast_oob :: "rat \<Rightarrow> int"
  csv_number :: "string \<Rightarrow> num option"

fun is_number :: "cell \<Rightarrow> bool" where
  "is_number (Num _) = True"
| "is_number _ = False"

text \<open>
  What every sorting algorithm guarantees on a column of numbers: the indexer is a
  permutation of the positions, and the keys taken in its order ascend.
\<close>

definition argsort_ok :: "(cell list \<Rightarrow> nat list) \<Rightarrow> bool" where
  "argsort_ok f \<longleftrightarrow>
     (\<forall>ks. list_all is_number ks \<longrightarrow>
        mset (f ks) = mset [0 ..< length ks] \<and> sorted_wrt key_le (map ((!) ks) (f ks)))"

section \<open>Cleaner\<close>

text \<open>\<^verbatim>\<open>pd.to_numeric(column, errors='coerce')\<close>, cell by cell.\<close>

fun to_numeric :: "lib \<Rightarrow> cell \<Rightarrow> cell" where
  "to_numeric L NaN = NaN"
| "to_numeric L (Num n) = Num n"
| "to_numeric L (Str s) = (case to_float L s of None \<Rightarrow> NaN | Some n \<Rightarrow> Num n)"

definition trunc :: "rat \<Rightarrow> int" where
  "trunc x = (if 0 \<le> x then \<lfloor>x\<rfloor> else \<lceil>x\<rceil>)"

fun is_finite :: "cell \<Rightarrow> bool" where
  "is_finite (Num (Fin _)) = True"
| "is_finite _ = False"

fun cast_int :: "lib \<Rightarrow> cell \<Rightarrow> cell" where
  "cast_int L (Num (Fin x)) =
     Num (Fin (of_int (if - (2 ^ 63) \<le> trunc x \<and> trunc x < 2 ^ 63 then trunc x
                       else cast_oob L x)))"
| "cast_int L c = c"

text \<open>
  \<^verbatim>\<open>column.astype(int)\<close> on a numeric column: the library first checks that every value
  is finite and raises \<^verbatim>\<open>IntCastingNaNError\<close> otherwise, then casts, truncating towards
  zero.  The source calls it after \<^verbatim>\<open>to_numeric\<close>, so the column holds no text.
\<close>

definition astype_int :: "lib \<Rightarrow> cell list \<Rightarrow> error + cell list" where
  "astype_int L vs =
     (if list_all is_finite vs then Inr (map (cast_int L) vs) else Inl IntCastingNaNError)"

text \<open>
  \<^verbatim>\<open>df.sort_values(c)\<close> with the defaults \<^verbatim>\<open>ascending=True\<close>, \<^verbatim>\<open>kind='quicksort'\<close>,
  \<^verbatim>\<open>na_position='last'\<close>: the rows with a key are taken in the order of the indexer that
  the sorting algorithm returns for their keys, the rows without a key follow.
\<close>

definition sort_values :: "lib \<Rightarrow> frame \<Rightarrow> cell \<Rightarrow> error + frame" where
  "sort_values L df c =
     (case getitem df c of Inl e \<Rightarrow> Inl e | Inr ks \<Rightarrow>
        (let non_nan_idx = filter (\<lambda>i. ks ! i \<noteq> NaN) [0 ..< length ks];
             nan_idx = filter (\<lambda>i. ks ! i = NaN) [0 ..< length ks];
             indexer = map ((!) non_nan_idx) (argsort L (map ((!) ks) non_nan_idx)) @ nan_idx
         in Inr (df\<lparr>rows := map ((!) (rows df)) indexer\<rparr>)))"

text \<open>
  The loop \<^verbatim>\<open>for col in [...]: if col in df.columns: df[col] = pd.to_numeric(df[col], ...)\<close>.
\<close>

fun coerce_columns :: "lib \<Rightarrow> cell list \<Rightarrow> frame \<Rightarrow> error + frame" where
  "coerce_columns L [] df = Inr df"
| "coerce_columns L (col # rest) df =
     (if col \<in> set (columns df) then
        (case getitem df col of Inl e \<Rightarrow> Inl e
         | Inr vs \<Rightarrow> coerce_columns L rest (setitem df col (map (to_numeric L) vs)))
      else coerce_columns L rest df)"

definition metrics :: "cell list" where
  "metrics = [Str ''Area harvested'', Str ''Yield'', Str ''Production'']"

definition clean_and_sort :: "lib \<Rightarrow> frame \<Rightarrow> error + frame" where
  "clean_and_sort L df =
     (case getitem df (Str ''Year'') of Inl e \<Rightarrow> Inl e | Inr ys \<Rightarrow>
      case dropna_subset (setitem df (Str ''Year'') (map (to_numeric L) ys)) (Str ''Year'') of
        Inl e \<Rightarrow> Inl e | Inr df1 \<Rightarrow>
      case getitem df1 (Str ''Year'') of Inl e \<Rightarrow> Inl e | Inr ys1 \<Rightarrow>
      case astype_int L ys1 of Inl e \<Rightarrow> Inl e | Inr ys2 \<Rightarrow>
      case coerce_columns L metrics (setitem df1 (Str ''Year'') ys2) of
        Inl e \<Rightarrow> Inl e | Inr df2 \<Rightarrow>
      case sort_values L df2 (Str ''Year'') of Inl e \<Rightarrow> Inl e | Inr df3 \<Rightarrow>
        Inr (reset_index_drop df3))"

section \<open>Instances of the library parameters\<close>

text \<open>
  Concrete instances, used where a statement is evaluated on an input.  \<open>parse_decimal\<close>
  reads the unsigned decimal integers (on which every number parser agrees) and nothing
  else.  \<open>stable_argsort\<close> is an insertion sort that keeps tied keys in their order; it
  meets \<open>argsort_ok\<close>.
\<close>

fun decimal_value :: "nat \<Rightarrow> string \<Rightarrow> nat option" where
  "decimal_value acc [] = Some acc"
| "decimal_value acc (c # cs) =
     (if (48::nat) \<le> of_char c \<and> of_char c \<le> (57::nat)
      then decimal_value (10 * acc + (of_char c - 48)) cs else None)"

definition parse_decimal :: "string \<Rightarrow> num option" where
  "parse_decimal s =
     (if s = [] then None else map_option (\<lambda>n. Fin (of_nat n)) (decimal_value 0 s))"

fun insort_stable :: "cell \<times> nat \<Rightarrow> (cell \<times> nat) list \<Rightarrow> (cell \<times> nat) list" where
  "insort_stable p [] = [p]"
| "insort_stable p (q # qs) =
     (if key_le (fst p) (fst q) then p # q # qs else q # insort_stable p qs)"

definition stable_argsort :: "cell list \<Rightarrow> nat list" where
  "stable_argsort ks = map snd (foldr insort_stable (zip ks [0 ..< length ks]) [])"

definition sample_lib :: lib where
  "sample_lib = \<lparr>to_float = parse_decimal, argsort = stable_argsort,
                  cast_oob = (\<lambda>x. - (2 ^ 63)), csv_number = parse_decimal\<rparr>"

section \<open>The default sorting algorithm\<close>

text \<open>
  \<^verbatim>\<open>sort_values\<close> passes the keys to \<^verbatim>\<open>ndarray.argsort(kind='quicksort')\<close>.  On integer
  keys this is numpy's \<^verbatim>\<open>aquicksort\<close> (\<^verbatim>\<open>npysort/quicksort\<close>), modelled here from its
  portable routine: the routine that runs wherever the build has no vectorised routine
  for the processor.  The routine sorts an array \<^verbatim>\<open>tosort\<close> of positions, comparing the
  keys \<^verbatim>\<open>v\<close> they point to with the strict order \<^verbatim>\<open>less\<close>.  A range of more than 17
  positions is partitioned around the median of its first, middle and last key, the
  larger part is pushed on a stack with the remaining depth and the smaller part is
  partitioned further; a range of at most 17 positions is sorted by insertion; a range
  popped with a negative depth is sorted by \<^verbatim>\<open>aheapsort\<close>.

  The array is a list, a pointer into it is a position, \<^verbatim>\<open>*p\<close> is \<open>a ! p\<close>.  The
  pointers \<^verbatim>\<open>pi\<close> and \<^verbatim>\<open>pj\<close> of the routine are written \<open>p_i\<close> and \<open>p_j\<close>.
\<close>

definition key_less :: "cell \<Rightarrow> cell \<Rightarrow> bool" where
  "key_less a b \<longleftrightarrow> \<not> key_le b a"

text \<open>\<^verbatim>\<open>INTP_SWAP(*i, *j)\<close>.\<close>

definition intp_swap :: "nat list \<Rightarrow> nat \<Rightarrow> nat \<Rightarrow> nat list" where
  "intp_swap a i j = a[i := a ! j, j := a ! i]"

text \<open>
  The two scans of the partition, \<^verbatim>\<open>do ++pi; while (less(v[*pi], vp))\<close> and
  \<^verbatim>\<open>do --pj; while (less(vp, v[*pj]))\<close>.  In the routine the first scan stops at the
  latest on the pivot, which is kept at \<^verbatim>\<open>pr - 1\<close>, and the second at the latest on the
  key at \<^verbatim>\<open>pl\<close>, which is not above the pivot; the bounds \<open>hi\<close> and \<open>lo\<close> are these two
  positions, at which the scans stop here without a comparison.
\<close>

function scan_up :: "cell list \<Rightarrow> cell \<Rightarrow> nat list \<Rightarrow> nat \<Rightarrow> nat \<Rightarrow> nat" where
  "scan_up v vp a hi p_i =
     (if p_i + 1 < hi \<and> key_less (v ! (a ! (p_i + 1))) vp
      then scan_up v vp a hi (p_i + 1) else p_i + 1)"
  by pat_completeness auto
termination by (relation "measure (\<lambda>(v, vp, a, hi, p_i). hi - p_i)") auto

function scan_down :: "cell list \<Rightarrow> cell \<Rightarrow> nat list \<Rightarrow> nat \<Rightarrow> nat \<Rightarrow> nat" where
  "scan_down v vp a lo p_j =
     (if lo < p_j - 1 \<and> key_less vp (v ! (a ! (p_j - 1)))
      then scan_down v vp a lo (p_j - 1) else p_j - 1)"
  by pat_completeness auto
termination by (relation "measure (\<lambda>(v, vp, a, lo, p_j). p_j)") auto

declare scan_up.simps [simp del] scan_down.simps [simp del]

lemma scan_up_bounds:
  "p_i < scan_up v vp a hi p_i \<and> (p_i < hi \<longrightarrow> scan_up v vp a hi p_i \<le> hi)"
proof (induction v vp a hi p_i rule: scan_up.induct)
  case (1 v vp a hi p_i)
  show ?case
  proof (cases "p_i + 1 < hi \<and> key_less (v ! (a ! (p_i + 1))) vp")
    case True
    then show ?thesis using 1[OF True] by (subst (1 2) scan_up.simps) auto
  next
    case False
    then show ?thesis by (subst (1 2) scan_up.simps) auto
  qed
qed

lemma scan_down_bound: "scan_down v vp a lo p_j \<le> p_j - 1"
proof (induction v vp a lo p_j rule: scan_down.induct)
  case (1 v vp a lo p_j)
  show ?case
  proof (cases "lo < p_j - 1 \<and> key_less vp (v ! (a ! (p_j - 1)))")
    case True
    then show ?thesis using 1[OF True] by (subst scan_down.simps) auto
  next
    case False
    then show ?thesis by (subst scan_down.simps) auto
  qed
qed

text \<open>
  The loop \<^verbatim>\<open>for (;;) { scan up; scan down; if (pi >= pj) break; INTP_SWAP(*pi, *pj); }\<close>.
\<close>

function partition_loop ::
  "cell list \<Rightarrow> cell \<Rightarrow> nat \<Rightarrow> nat \<Rightarrow> nat list \<Rightarrow> nat \<Rightarrow> nat \<Rightarrow> nat list \<times> nat" where
  "partition_loop v vp lo hi a p_i p_j =
     (let p_i1 = scan_up v vp a hi p_i; p_j1 = scan_down v vp a lo p_j
      in if p_i1 \<ge> p_j1 then (a, p_i1)
         else partition_loop v vp lo hi (intp_swap a p_i1 p_j1) p_i1 p_j1)"
  by pat_completeness auto
termination
proof (relation "measure (\<lambda>(v, vp, lo, hi, a, p_i, p_j). p_j - p_i)", goal_cases)
  case 1
  show ?case by simp
next
  case (2 v vp lo hi a p_i p_j x xa)
  have "p_i < scan_up v vp a hi p_i" using scan_up_bounds[of p_i v vp a hi] by simp
  moreover have "scan_down v vp a lo p_j \<le> p_j - 1" by (rule scan_down_bound)
  moreover have "scan_up v vp a hi p_i < scan_down v vp a lo p_j" using 2 by simp
  ultimately show ?case using 2 by simp
qed

declare partition_loop.simps [simp del]

lemma partition_loop_bounds:
  "p_i < hi \<Longrightarrow> p_j \<le> hi \<Longrightarrow> partition_loop v vp lo hi a p_i p_j = (a1, p) \<Longrightarrow> p_i < p \<and> p \<le> hi"
proof (induction v vp lo hi a p_i p_j rule: partition_loop.induct)
  case (1 v vp lo hi a p_i p_j)
  let ?p_i1 = "scan_up v vp a hi p_i" and ?p_j1 = "scan_down v vp a lo p_j"
  note u = scan_up_bounds[of p_i v vp a hi] and d = scan_down_bound[of v vp a lo p_j]
  show ?case
  proof (cases "?p_i1 \<ge> ?p_j1")
    case True
    then have "p = ?p_i1" using 1(4) by (subst (asm) partition_loop.simps) (auto simp: Let_def)
    then show ?thesis using u 1(2) by simp
  next
    case False
    then have e: "partition_loop v vp lo hi (intp_swap a ?p_i1 ?p_j1) ?p_i1 ?p_j1 = (a1, p)"
      using 1(4) by (subst (asm) partition_loop.simps) (simp add: Let_def)
    have "?p_i1 < hi" using False d 1(3) by simp
    moreover have "?p_j1 \<le> hi" using d 1(3) by simp
    ultimately have "?p_i1 < p \<and> p \<le> hi"
      using 1(1)[OF refl refl _ _ _ e] False by simp
    then show ?thesis using u by simp
  qed
qed

text \<open>
  One partition of the range from \<open>pl\<close> to \<open>pr\<close>: the median of three is moved to
  \<^verbatim>\<open>pm\<close>, its key is the pivot \<^verbatim>\<open>vp\<close>, the pivot is kept at \<^verbatim>\<open>pr - 1\<close> during the loop
  and swapped to its place \<^verbatim>\<open>pi\<close> after it.
\<close>

definition quicksort_partition :: "cell list \<Rightarrow> nat list \<Rightarrow> nat \<Rightarrow> nat \<Rightarrow> nat list \<times> nat" where
  "quicksort_partition v a0 pl pr =
     (let pm = pl + (pr - pl) div 2;
          a1 = (if key_less (v ! (a0 ! pm)) (v ! (a0 ! pl)) then intp_swap a0 pm pl else a0);
          a2 = (if key_less (v ! (a1 ! pr)) (v ! (a1 ! pm)) then intp_swap a1 pr pm else a1);
          a3 = (if key_less (v ! (a2 ! pm)) (v ! (a2 ! pl)) then intp_swap a2 pm pl else a2);
          vp = v ! (a3 ! pm);
          a4 = intp_swap a3 pm (pr - 1);
          (a5, p_i) = partition_loop v vp pl (pr - 1) a4 pl (pr - 1)
      in (intp_swap a5 p_i (pr - 1), p_i))"

lemma quicksort_partition_bounds:
  assumes "pl + 1 < pr" and "quicksort_partition v a pl pr = (a1, p_i)"
  shows "pl < p_i \<and> p_i < pr"
proof -
  obtain vp a4 a5 where "partition_loop v vp pl (pr - 1) a4 pl (pr - 1) = (a5, p_i)"
    using assms(2) by (auto simp: quicksort_partition_def Let_def split: prod.splits)
  from partition_loop_bounds[OF _ _ this] assms(1) have "pl < p_i \<and> p_i \<le> pr - 1" by simp
  then show ?thesis using assms(1) by arith
qed

text \<open>
  The loop \<^verbatim>\<open>while ((pr - pl) > SMALL_QUICKSORT)\<close>, with \<^verbatim>\<open>SMALL_QUICKSORT\<close> 16: partition,
  push the larger part with the depth \<^verbatim>\<open>--cdepth\<close>, go on with the smaller part.
\<close>

function aquicksort_while ::
  "cell list \<Rightarrow> nat list \<Rightarrow> nat \<Rightarrow> nat \<Rightarrow> (nat \<times> nat \<times> int) list \<Rightarrow> int
     \<Rightarrow> nat list \<times> nat \<times> nat \<times> (nat \<times> nat \<times> int) list" where
  "aquicksort_while v a pl pr stack cdepth =
     (if pr - pl > 16 then
        (let (a1, p_i) = quicksort_partition v a pl pr in
         if p_i - pl < pr - p_i
         then aquicksort_while v a1 pl (p_i - 1) ((p_i + 1, pr, cdepth - 1) # stack) (cdepth - 1)
         else aquicksort_while v a1 (p_i + 1) pr ((pl, p_i - 1, cdepth - 1) # stack) (cdepth - 1))
      else (a, pl, pr, stack))"
  by pat_completeness auto
termination
proof (relation "measure (\<lambda>(v, a, pl, pr, stack, cdepth). pr - pl)", goal_cases)
  case 1
  show ?case by simp
next
  case (2 v a pl pr stack cdepth x a1 p_i)
  then show ?case using quicksort_partition_bounds[of pl pr v a a1 p_i] by simp
next
  case (3 v a pl pr stack cdepth x a1 p_i)
  then show ?case using quicksort_partition_bounds[of pl pr v a a1 p_i] by simp
qed

declare aquicksort_while.simps [simp del]

text \<open>
  The insertion sort of a range: \<^verbatim>\<open>for (pi = pl + 1; pi <= pr; ++pi)\<close>, with the inner loop
  \<^verbatim>\<open>while (pj > pl && less(vp, v[*pk])) { *pj-- = *pk--; }\<close>, where \<^verbatim>\<open>pk\<close> is \<^verbatim>\<open>pj - 1\<close>.
  The comparison is strict: a position is not moved before a position with the same key.
\<close>

function insert_shift ::
  "cell list \<Rightarrow> cell \<Rightarrow> nat \<Rightarrow> nat list \<Rightarrow> nat \<Rightarrow> nat list \<times> nat" where
  "insert_shift v vp pl a p_j =
     (if p_j > pl \<and> key_less vp (v ! (a ! (p_j - 1)))
      then insert_shift v vp pl (a[p_j := a ! (p_j - 1)]) (p_j - 1)
      else (a, p_j))"
  by pat_completeness auto
termination by (relation "measure (\<lambda>(v, vp, pl, a, p_j). p_j)") auto

function insertion_sort :: "cell list \<Rightarrow> nat list \<Rightarrow> nat \<Rightarrow> nat \<Rightarrow> nat \<Rightarrow> nat list" where
  "insertion_sort v a pl pr p_i =
     (if p_i \<le> pr then
        (let vi = a ! p_i; (a1, p_j) = insert_shift v (v ! vi) pl a p_i
         in insertion_sort v (a1[p_j := vi]) pl pr (p_i + 1))
      else a)"
  by pat_completeness auto
termination by (relation "measure (\<lambda>(v, a, pl, pr, p_i). pr + 1 - p_i)") auto

declare insert_shift.simps [simp del] insertion_sort.simps [simp del]

text \<open>
  \<^verbatim>\<open>aheapsort\<close> on the \<open>n\<close> positions from \<open>base\<close>.  The routine indexes the heap from 1
  (\<^verbatim>\<open>a = tosort - 1\<close>), so its \<^verbatim>\<open>a[k]\<close> is the position \<open>base + k - 1\<close> of the array.
  \<open>sift\<close> is the inner loop \<^verbatim>\<open>for (i = l, j = l << 1; j <= n;)\<close> of both phases.
\<close>

function sift ::
  "cell list \<Rightarrow> nat \<Rightarrow> nat \<Rightarrow> nat \<Rightarrow> nat list \<Rightarrow> nat \<Rightarrow> nat \<Rightarrow> nat list \<times> nat" where
  "sift v base n tmp a i j =
     (if 0 < j \<and> j \<le> n then
        (let j1 = (if j < n \<and> key_less (v ! (a ! (base + j - 1))) (v ! (a ! (base + j)))
                   then j + 1 else j)
         in if key_less (v ! tmp) (v ! (a ! (base + j1 - 1)))
            then sift v base n tmp (a[base + i - 1 := a ! (base + j1 - 1)]) j1 (j1 + j1)
            else (a, i))
      else (a, i))"
  by pat_completeness auto
termination by (relation "measure (\<lambda>(v, base, n, tmp, a, i, j). n + 1 - j)") auto

declare sift.simps [simp del]

fun heapify :: "cell list \<Rightarrow> nat \<Rightarrow> nat \<Rightarrow> nat list \<Rightarrow> nat \<Rightarrow> nat list" where
  "heapify v base n a 0 = a"
| "heapify v base n a (Suc k) =
     (let l = Suc k; tmp = a ! (base + l - 1); (a1, i) = sift v base n tmp a l (l + l)
      in heapify v base n (a1[base + i - 1 := tmp]) k)"

function heap_extract :: "cell list \<Rightarrow> nat \<Rightarrow> nat list \<Rightarrow> nat \<Rightarrow> nat list" where
  "heap_extract v base a n =
     (if n > 1 then
        (let tmp = a ! (base + n - 1);
             a1 = a[base + n - 1 := a ! base];
             (a2, i) = sift v base (n - 1) tmp a1 1 2
         in heap_extract v base (a2[base + i - 1 := tmp]) (n - 1))
      else a)"
  by pat_completeness auto
termination by (relation "measure (\<lambda>(v, base, a, n). n)") auto

declare heap_extract.simps [simp del]

definition aheapsort :: "cell list \<Rightarrow> nat list \<Rightarrow> nat \<Rightarrow> nat \<Rightarrow> nat list" where
  "aheapsort v a pl n = heap_extract v pl (heapify v pl n a (n div 2)) n"

text \<open>
  The outer loop \<^verbatim>\<open>while (1)\<close>: sort the current range (by \<^verbatim>\<open>aheapsort\<close> when the depth
  is used up, by partitions and a final insertion sort otherwise), then pop the next
  range with its depth, and stop when the stack is empty.  The loop terminates because
  the ranges on the stack together with the current range shrink: \<open>range_weight\<close> is the
  measure.
\<close>

definition range_weight :: "nat \<times> nat \<times> int \<Rightarrow> nat" where
  "range_weight = (\<lambda>(l, r, d). 2 * (r + 1 - l) + 1)"

lemma aquicksort_while_weight:
  "aquicksort_while v a pl pr stack cdepth = (a1, pl1, pr1, stack1) \<Longrightarrow>
   range_weight (pl1, pr1, d1) + sum_list (map range_weight stack1)
     \<le> range_weight (pl, pr, d0) + sum_list (map range_weight stack)"
proof (induction v a pl pr stack cdepth arbitrary: d0 rule: aquicksort_while.induct)
  case (1 v a pl pr stack cdepth)
  show ?case
  proof (cases "pr - pl > 16")
    case False
    then show ?thesis using 1(3) by (subst (asm) aquicksort_while.simps) (simp add: range_weight_def)
  next
    case True
    obtain a2 p_i where p: "quicksort_partition v a pl pr = (a2, p_i)"
      by (cases "quicksort_partition v a pl pr")
    have b: "pl < p_i \<and> p_i < pr" using quicksort_partition_bounds[OF _ p] True by simp
    show ?thesis
    proof (cases "p_i - pl < pr - p_i")
      case l: True
      have e: "aquicksort_while v a2 pl (p_i - 1) ((p_i + 1, pr, cdepth - 1) # stack) (cdepth - 1)
                 = (a1, pl1, pr1, stack1)"
        using 1(3) True l by (subst (asm) aquicksort_while.simps) (simp add: p)
      have "range_weight (pl1, pr1, d1) + sum_list (map range_weight stack1)
              \<le> range_weight (pl, p_i - 1, d0)
                 + sum_list (map range_weight ((p_i + 1, pr, cdepth - 1) # stack))"
        by (rule 1(1)[OF True p[symmetric] refl l e])
      moreover have "range_weight (pl, p_i - 1, d0) + range_weight (p_i + 1, pr, cdepth - 1)
              \<le> range_weight (pl, pr, d0)"
        using b unfolding range_weight_def by simp arith
      ultimately show ?thesis by simp
    next
      case l: False
      have e: "aquicksort_while v a2 (p_i + 1) pr ((pl, p_i - 1, cdepth - 1) # stack) (cdepth - 1)
                 = (a1, pl1, pr1, stack1)"
        using 1(3) True l by (subst (asm) aquicksort_while.simps) (simp add: p)
      have "range_weight (pl1, pr1, d1) + sum_list (map range_weight stack1)
              \<le> range_weight (p_i + 1, pr, d0)
                 + sum_list (map range_weight ((pl, p_i - 1, cdepth - 1) # stack))"
        by (rule 1(2)[OF True p[symmetric] refl l e])
      moreover have "range_weight (p_i + 1, pr, d0) + range_weight (pl, p_i - 1, cdepth - 1)
              \<le> range_weight (pl, pr, d0)"
        using b unfolding range_weight_def by simp arith
      ultimately show ?thesis by simp
    qed
  qed
qed

function aquicksort_loop ::
  "cell list \<Rightarrow> nat list \<Rightarrow> nat \<Rightarrow> nat \<Rightarrow> (nat \<times> nat \<times> int) list \<Rightarrow> int \<Rightarrow> nat list" where
  "aquicksort_loop v a pl pr stack cdepth =
     (let (a2, stack2) =
            (if cdepth < 0 then (aheapsort v a pl (pr - pl + 1), stack)
             else (let (a1, pl1, pr1, stack1) = aquicksort_while v a pl pr stack cdepth
                   in (insertion_sort v a1 pl1 pr1 (pl1 + 1), stack1)))
      in case stack2 of
           [] \<Rightarrow> a2
         | (l, r, d) # rest \<Rightarrow> aquicksort_loop v a2 l r rest d)"
  by pat_completeness auto
termination
proof (relation "measure (\<lambda>(v, a, pl, pr, stack, cdepth).
         range_weight (pl, pr, cdepth) + sum_list (map range_weight stack))", goal_cases)
  case 1
  show ?case by simp
next
  case (2 v a pl pr stack cdepth x a2 stack2 top rest l y r d)
  show ?case
  proof (cases "cdepth < 0")
    case True
    then have "stack = top # rest" using 2 by simp
    then show ?thesis using 2 by (auto simp: range_weight_def)
  next
    case False
    obtain a1 pl1 pr1 stack1 where w: "aquicksort_while v a pl pr stack cdepth = (a1, pl1, pr1, stack1)"
      by (cases "aquicksort_while v a pl pr stack cdepth") auto
    then have s: "stack1 = top # rest" using 2 False by simp
    have "range_weight (pl1, pr1, cdepth) + sum_list (map range_weight stack1)
            \<le> range_weight (pl, pr, cdepth) + sum_list (map range_weight stack)"
      by (rule aquicksort_while_weight[OF w])
    moreover have "0 < range_weight (pl1, pr1, cdepth)" by (simp add: range_weight_def)
    ultimately have "sum_list (map range_weight (top # rest))
            < range_weight (pl, pr, cdepth) + sum_list (map range_weight stack)"
      unfolding s by simp
    then show ?thesis using 2 by auto
  qed
qed

declare aquicksort_loop.simps [simp del]

text \<open>
  \<^verbatim>\<open>npy_get_msb\<close> counts the halvings (\<^verbatim>\<open>while (unum >>= 1) depth_limit++\<close>); the depth
  starts at twice that number.  \<^verbatim>\<open>argsort\<close> starts from the positions in their order.
\<close>

fun npy_get_msb :: "nat \<Rightarrow> nat" where
  "npy_get_msb unum = (if unum div 2 = 0 then 0 else 1 + npy_get_msb (unum div 2))"

declare npy_get_msb.simps [simp del]

definition aquicksort :: "cell list \<Rightarrow> nat list \<Rightarrow> nat \<Rightarrow> nat list" where
  "aquicksort v tosort num =
     (if num = 0 then tosort
      else aquicksort_loop v tosort 0 (num - 1) [] (2 * int (npy_get_msb num)))"

definition numpy_argsort :: "cell list \<Rightarrow> nat list" where
  "numpy_argsort ks = aquicksort ks [0 ..< length ks] (length ks)"

definition numpy_lib :: lib where
  "numpy_lib = sample_lib\<lparr>argsort := numpy_argsort\<rparr>"

section \<open>Loader\<close>


text \<open>
  A field that the reader takes for a boolean: \<^verbatim>\<open>true\<close> or \<^verbatim>\<open>false\<close>, compared without
  regard to case (\<open>fold_case\<close> is the code of a character, of the lower-case letter for
  an upper-case letter).
\<close>

definition fold_case :: "char \<Rightarrow> nat" where
  "fold_case c = (if (65::nat) \<le> of_char c \<and> of_char c \<le> (90::nat)
                  then of_char c + 32 else of_char c)"

definition is_bool_literal :: "string \<Rightarrow> bool" where
  "is_bool_literal s \<longleftrightarrow>
     map fold_case s = map of_char ''true'' \<or> map fold_case s = map of_char ''false''"













section \<open>Chart renderers\<close>

text \<open>
  What a renderer does to the outside: the directories it ensures, the image files it
  writes (a later write to a path replaces the earlier one) and the lines it prints.
  The state of the file system that decides whether these calls fail is part of the
  outside: \<open>denied\<close> holds of the paths at which the system refuses to make or to find a
  directory (a component is a regular file, a permission is lacking), \<open>unwritable\<close> of
  the paths at which it refuses to write a file.
  A panel keeps the kind of the chart and the two series passed to it; colours, titles
  and labels are constants of the source and are left out.
\<close>

datatype panel = Scatter "cell list" "cell list" | Bar "cell list" "cell list"

record world =
  dirs :: "string list"
  files :: "(string \<times> panel list) list"
  stdout :: "string list"
  denied :: "string \<Rightarrow> bool"
  unwritable :: "string \<Rightarrow> bool"

text \<open>
  \<^verbatim>\<open>os.makedirs(d, exist_ok=True)\<close>: raises \<^verbatim>\<open>FileNotFoundError\<close> on the empty path and an
  \<^verbatim>\<open>OSError\<close> where the system refuses; an existing directory is not an error.
\<close>

definition makedirs :: "string \<Rightarrow> world \<Rightarrow> error + world" where
  "makedirs d w =
     (if d = [] then Inl (FileNotFoundError d)
      else if denied w d then Inl (OSError d)
      else Inr (w\<lparr>dirs := List.insert d (dirs w)\<rparr>))"

text \<open>\<^verbatim>\<open>fig.savefig(path, ...)\<close>: raises an \<^verbatim>\<open>OSError\<close> where the system refuses the write.\<close>

definition savefig :: "string \<Rightarrow> panel list \<Rightarrow> world \<Rightarrow> error + world" where
  "savefig path fig w =
     (if unwritable w path then Inl (OSError path)
      else Inr (w\<lparr>files := (path, fig) # filter (\<lambda>(p, g). p \<noteq> path) (files w)\<rparr>))"

definition print :: "string \<Rightarrow> world \<Rightarrow> world" where
  "print line w = w\<lparr>stdout := stdout w @ [line]\<rparr>"

text \<open>\<^verbatim>\<open>os.path.join(a, b)\<close> on a POSIX system.\<close>

definition path_join :: "string \<Rightarrow> string \<Rightarrow> string" where
  "path_join a b =
     (if b \<noteq> [] \<and> hd b = CHR ''/'' then b
      else if a = [] \<or> last a = CHR ''/'' then a @ b
      else a @ ''/'' @ b)"

text \<open>\<^verbatim>\<open>df.empty\<close>: an axis of length zero.\<close>

definition empty_frame :: "frame \<Rightarrow> bool" where
  "empty_frame df \<longleftrightarrow> rows df = [] \<or> columns df = []"

definition plot_scatter :: "frame \<Rightarrow> string \<Rightarrow> string \<Rightarrow> string \<Rightarrow> world \<Rightarrow> error + world" where
  "plot_scatter df country_name output_dir filename w0 =
     (case makedirs output_dir w0 of Inl e \<Rightarrow> Inl e | Inr w \<Rightarrow>
      if Str ''Yield'' \<notin> set (columns df) then
        Inr (print (''Warning: 'Yield' column not found for '' @ country_name
                     @ ''. Skipping scatter plot.'') w)
      else
        case dropna_subset df (Str ''Yield'') of Inl e \<Rightarrow> Inl e | Inr df_plot \<Rightarrow>
          if empty_frame df_plot then
            Inr (print (''Warning: No valid Yield values for '' @ country_name
                         @ ''. Skipping scatter plot.'') w)
          else
            case getitem df_plot (Str ''Year'') of Inl e \<Rightarrow> Inl e | Inr xs \<Rightarrow>
            case getitem df_plot (Str ''Yield'') of Inl e \<Rightarrow> Inl e | Inr ys \<Rightarrow>
            case savefig (path_join output_dir filename) [Scatter xs ys] w of
              Inl e \<Rightarrow> Inl e
            | Inr w1 \<Rightarrow>
                Inr (print (''Saved scatter plot for '' @ country_name @ '': ''
                             @ path_join output_dir filename) w1))"

definition plot_bar :: "frame \<Rightarrow> string \<Rightarrow> string \<Rightarrow> string \<Rightarrow> world \<Rightarrow> error + world" where
  "plot_bar df country_name output_dir filename w0 =
     (case makedirs output_dir w0 of Inl e \<Rightarrow> Inl e | Inr w \<Rightarrow>
      if Str ''Area harvested'' \<notin> set (columns df) then
        Inr (print (''Warning: 'Area harvested' column not found for '' @ country_name
                     @ ''. Skipping bar chart.'') w)
      else
        case dropna_subset df (Str ''Area harvested'') of Inl e \<Rightarrow> Inl e | Inr df_plot \<Rightarrow>
          if empty_frame df_plot then
            Inr (print (''Warning: No valid Area harvested values for '' @ country_name
                         @ ''. Skipping bar chart.'') w)
          else
            case getitem df_plot (Str ''Year'') of Inl e \<Rightarrow> Inl e | Inr xs \<Rightarrow>
            case getitem df_plot (Str ''Area harvested'') of Inl e \<Rightarrow> Inl e | Inr ys \<Rightarrow>
            case savefig (path_join output_dir filename) [Bar xs ys] w of
              Inl e \<Rightarrow> Inl e
            | Inr w1 \<Rightarrow>
                Inr (print (''Saved bar chart for '' @ country_name @ '': ''
                             @ path_join output_dir filename) w1))"

text \<open>
  One panel of the combined chart: \<^verbatim>\<open>d = df.dropna(subset=[metric])\<close>, then the two
  series \<^verbatim>\<open>d['Year']\<close> and \<^verbatim>\<open>d[metric]\<close>.  There is no test of \<^verbatim>\<open>df.columns\<close> before.
\<close>

definition panel_series :: "frame \<Rightarrow> cell \<Rightarrow> error + cell list \<times> cell list" where
  "panel_series df metric =
     (case dropna_subset df metric of Inl e \<Rightarrow> Inl e | Inr d \<Rightarrow>
      case getitem d (Str ''Year'') of Inl e \<Rightarrow> Inl e | Inr xs \<Rightarrow>
      case getitem d metric of Inl e \<Rightarrow> Inl e | Inr ys \<Rightarrow> Inr (xs, ys))"

definition plot_combined :: "frame \<Rightarrow> frame \<Rightarrow> string \<Rightarrow> string \<Rightarrow> world \<Rightarrow> error + world" where
  "plot_combined ghana_df coast_df output_dir filename w0 =
     (case makedirs output_dir w0 of Inl e \<Rightarrow> Inl e | Inr w \<Rightarrow>
      case panel_series ghana_df (Str ''Yield'') of Inl e \<Rightarrow> Inl e | Inr (gx, gy) \<Rightarrow>
      case panel_series coast_df (Str ''Yield'') of Inl e \<Rightarrow> Inl e | Inr (cx, cy) \<Rightarrow>
      case panel_series ghana_df (Str ''Area harvested'') of Inl e \<Rightarrow> Inl e | Inr (gbx, gby) \<Rightarrow>
      case panel_series coast_df (Str ''Area harvested'') of Inl e \<Rightarrow> Inl e | Inr (cbx, cby) \<Rightarrow>
      case savefig (path_join output_dir filename)
             [Scatter gx gy, Scatter cx cy, Bar gbx gby, Bar cbx cby] w of
        Inl e \<Rightarrow> Inl e
      | Inr w1 \<Rightarrow>
          Inr (print (''Saved combined plot with annotations: ''
                       @ path_join output_dir filename) w1))"

section \<open>Tables as objects\<close>

text \<open>
  The two transforms once more, with the tables as objects in a store: an address is a
  position in the list of objects, a call that returns a new table allocates, and an
  assignment \<^verbatim>\<open>df[c] = ...\<close> changes the object that the variable \<^verbatim>\<open>df\<close> refers to.
  Each function returns the store as it leaves it, also when it raises.
\<close>

type_synonym heap = "frame list"

definition new :: "frame \<Rightarrow> heap \<Rightarrow> nat \<times> heap" where
  "new f h = (length h, h @ [f])"

definition process_countries_data_obj :: "nat \<Rightarrow> string \<Rightarrow> heap \<Rightarrow> (error + nat) \<times> heap" where
  "process_countries_data_obj df country h0 =
     (case getitem (h0 ! df) (Str ''Area'') of Inl e \<Rightarrow> (Inl e, h0) | Inr area \<Rightarrow>
      (let (country_df, h1) = new (getitem_mask (h0 ! df) (map (\<lambda>a. a = Str country) area)) h0 in
       case getitem_list (h1 ! country_df) [Str ''Year'', Str ''Element'', Str ''Value''] of
         Inl e \<Rightarrow> (Inl e, h1) | Inr f \<Rightarrow>
       (let (country_df, h2) = new f h1 in
        case pivot_table_first (h2 ! country_df) (Str ''Year'') (Str ''Element'') (Str ''Value'') of
          Inl e \<Rightarrow> (Inl e, h2) | Inr p \<Rightarrow>
        case reset_index (Str ''Year'') p of Inl e \<Rightarrow> (Inl e, h2) | Inr f \<Rightarrow>
        (let (pivot_df, h3) = new f h2;
             (pivot_df, h4) = new (h3 ! pivot_df) h3;
             existing = filter (\<lambda>c. c \<in> set (columns (h4 ! pivot_df))) cols
         in case getitem_list (h4 ! pivot_df) existing of
              Inl e \<Rightarrow> (Inl e, h4)
            | Inr f \<Rightarrow> (let (res, h5) = new f h4 in (Inr res, h5))))))"

fun coerce_columns_obj :: "lib \<Rightarrow> cell list \<Rightarrow> nat \<Rightarrow> heap \<Rightarrow> error option \<times> heap" where
  "coerce_columns_obj L [] df h = (None, h)"
| "coerce_columns_obj L (col # rest) df h =
     (if col \<in> set (columns (h ! df)) then
        (case getitem (h ! df) col of Inl e \<Rightarrow> (Some e, h)
         | Inr vs \<Rightarrow>
             coerce_columns_obj L rest df (h[df := setitem (h ! df) col (map (to_numeric L) vs)]))
      else coerce_columns_obj L rest df h)"

definition clean_and_sort_obj :: "lib \<Rightarrow> nat \<Rightarrow> heap \<Rightarrow> (error + nat) \<times> heap" where
  "clean_and_sort_obj L df0 h0 =
     (let (df, h1) = new (h0 ! df0) h0 in
      case getitem (h1 ! df) (Str ''Year'') of Inl e \<Rightarrow> (Inl e, h1) | Inr ys \<Rightarrow>
      (let h2 = h1[df := setitem (h1 ! df) (Str ''Year'') (map (to_numeric L) ys)] in
       case dropna_subset (h2 ! df) (Str ''Year'') of Inl e \<Rightarrow> (Inl e, h2) | Inr f \<Rightarrow>
       (let (df, h3) = new f h2 in
        case getitem (h3 ! df) (Str ''Year'') of Inl e \<Rightarrow> (Inl e, h3) | Inr ys1 \<Rightarrow>
        case astype_int L ys1 of Inl e \<Rightarrow> (Inl e, h3) | Inr ys2 \<Rightarrow>
        (let h4 = h3[df := setitem (h3 ! df) (Str ''Year'') ys2] in
         case coerce_columns_obj L metrics df h4 of
           (Some e, h5) \<Rightarrow> (Inl e, h5)
         | (None, h5) \<Rightarrow>
         case sort_values L (h5 ! df) (Str ''Year'') of Inl e \<Rightarrow> (Inl e, h5) | Inr f \<Rightarrow>
         (let (df, h6) = new f h5;
              (df, h7) = new (reset_index_drop (h6 ! df)) h6
          in (Inr df, h7))))))"

section \<open>The cleaner in the words of the specification\<close>

text \<open>
  What the specification says of a row that survives: its Year is parsed and cast to an
  integer, each cell of a metric column is parsed (missing when it is not a number), any
  other cell is unchanged.  A row survives when its Year parses.
\<close>

definition spec_clean_cell :: "lib \<Rightarrow> cell \<Rightarrow> cell \<Rightarrow> cell" where
  "spec_clean_cell L label c =
     (if label = Str ''Year'' then cast_int L (to_numeric L c)
      else if label \<in> set metrics then to_numeric L c
      else c)"

definition spec_clean_row :: "lib \<Rightarrow> cell list \<Rightarrow> cell list \<Rightarrow> cell list" where
  "spec_clean_row L labels r = map (\<lambda>(label, c). spec_clean_cell L label c) (zip labels r)"

definition spec_year_parses :: "lib \<Rightarrow> cell list \<Rightarrow> cell list \<Rightarrow> bool" where
  "spec_year_parses L labels r \<longleftrightarrow> to_numeric L (lookup_cell labels r (Str ''Year'')) \<noteq> NaN"

text \<open>
  A row changed cell by cell, each cell by a function of its column label, and a table
  changed row by row.
\<close>

definition map_cells :: "(cell \<Rightarrow> cell \<Rightarrow> cell) \<Rightarrow> cell list \<Rightarrow> cell list \<Rightarrow> cell list" where
  "map_cells f labels r = map (\<lambda>(label, c). f label c) (zip labels r)"

definition map_rows :: "(cell list \<Rightarrow> cell list) \<Rightarrow> frame \<Rightarrow> frame" where
  "map_rows g df = df\<lparr>rows := map (\<lambda>r. (fst r, g (snd r))) (rows df)\<rparr>"

fun is_integer :: "cell \<Rightarrow> bool" where
  "is_integer (Num (Fin x)) = (of_int \<lfloor>x\<rfloor> = x)"
| "is_integer _ = False"

text \<open>The integer that an integer cell holds.\<close>

fun year_int :: "cell \<Rightarrow> int" where
  "year_int (Num (Fin x)) = \<lfloor>x\<rfloor>"
| "year_int _ = 0"

section \<open>Orchestration of one entity, and sample inputs\<close>

text \<open>
  The two calls that \<^verbatim>\<open>main\<close> makes for an entity:
  \<^verbatim>\<open>t = process_countries_data(df, name); t = clean_and_sort(t)\<close>.
\<close>

definition reshape_and_clean :: "lib \<Rightarrow> frame \<Rightarrow> string \<Rightarrow> error + frame" where
  "reshape_and_clean L df country =
     (case process_countries_data df country of Inl e \<Rightarrow> Inl e | Inr t \<Rightarrow> clean_and_sort L t)"

definition raw_columns :: "cell list" where
  "raw_columns = [Str ''Area'', Str ''Year'', Str ''Element'', Str ''Value'']"

text \<open>The two rows of the scenario, with the fields as texts and as numbers.\<close>

definition scenario_text :: frame where
  "scenario_text = \<lparr>columns = raw_columns,
     rows = [(0, [Str ''Ghana'', Str ''1961'', Str ''Yield'', Str ''300'']),
             (1, [Str ''Ghana'', Str ''1961'', Str ''Area harvested'', Str ''100''])]\<rparr>"

definition scenario_numeric :: frame where
  "scenario_numeric = \<lparr>columns = raw_columns,
     rows = [(0, [Str ''Ghana'', Num (Fin 1961), Str ''Yield'', Num (Fin 300)]),
             (1, [Str ''Ghana'', Num (Fin 1961), Str ''Area harvested'', Num (Fin 100)])]\<rparr>"




definition collision_only_missing :: frame where
  "collision_only_missing = \<lparr>columns = raw_columns,
     rows = [(0, [Str ''Ghana'', Num (Fin 1961), Str ''Yield'', NaN]),
             (1, [Str ''Ghana'', Num (Fin 1961), Str ''Yield'', NaN])]\<rparr>"

text \<open>
  Records whose Year column is a column of texts (the third record keeps it one): two of
  the Years are different texts that spell the same number.
\<close>

definition years_same_number :: frame where
  "years_same_number = \<lparr>columns = raw_columns,
     rows = [(0, [Str ''Ghana'', Str ''1961'', Str ''Yield'', Num (Fin 300)]),
             (1, [Str ''Ghana'', Str ''01961'', Str ''Yield'', Num (Fin 400)]),
             (2, [Str ''Ghana'', Str ''n.d.'', Str ''Yield'', Num (Fin 500)])]\<rparr>"

text \<open>An entity table without a Yield column, and one with all three metrics.\<close>

definition table_no_yield :: frame where
  "table_no_yield = \<lparr>columns = [Str ''Year'', Str ''Area harvested''],
     rows = [(0, [Num (Fin 1961), Num (Fin 100)])]\<rparr>"

definition table_no_area :: frame where
  "table_no_area = \<lparr>columns = [Str ''Year'', Str ''Yield''],
     rows = [(0, [Num (Fin 1961), Num (Fin 300)])]\<rparr>"

text \<open>An entity table whose two metric columns hold no value.\<close>

definition table_blank_metrics :: frame where
  "table_blank_metrics = \<lparr>columns = [Str ''Year'', Str ''Area harvested'', Str ''Yield''],
     rows = [(0, [Num (Fin 1961), NaN, NaN]), (1, [Num (Fin 1962), NaN, NaN])]\<rparr>"

definition table_full :: frame where
  "table_full = \<lparr>columns = [Str ''Year'', Str ''Area harvested'', Str ''Yield'', Str ''Production''],
     rows = [(0, [Num (Fin 1961), Num (Fin 100), Num (Fin 300), NaN]),
             (1, [Num (Fin 1962), NaN, NaN, Num (Fin 5)])]\<rparr>"

text \<open>An entity table whose only Year is infinite (a float column may hold it).\<close>

definition table_inf_year :: frame where
  "table_inf_year = \<lparr>columns = [Str ''Year'', Str ''Yield''],
     rows = [(0, [Num PInf, Num (Fin 300)])]\<rparr>"

text \<open>An entity table with an infinite Year in one row and the Year 1961 in another.\<close>

definition table_inf_among_years :: frame where
  "table_inf_among_years = \<lparr>columns = [Str ''Year'', Str ''Yield''],
     rows = [(0, [Num PInf, Num (Fin 300)]),
             (1, [Num (Fin 1961), Num (Fin 5)])]\<rparr>"

text \<open>An entity table with two distinct Years that truncate to the same integer.\<close>

definition table_tied_years :: frame where
  "table_tied_years = \<lparr>columns = [Str ''Year'', Str ''Yield''],
     rows = [(0, [Num (Fin (7845 / 4)), Num (Fin 1)]),
             (1, [Num (Fin (7847 / 4)), Num (Fin 2)])]\<rparr>"

text \<open>
  An entity table of eighteen rows with eighteen distinct Years, from 1961 to 1961.85 in
  steps of 0.05, which all have the integer part 1961; the Yield of a row is its rank in
  the table.  And the keys of these rows after the cast: eighteen times 1961.
\<close>

definition table_eighteen_ties :: frame where
  "table_eighteen_ties = \<lparr>columns = [Str ''Year'', Str ''Yield''],
     rows = [(0, [Num (Fin 1961), Num (Fin 1)]),
             (1, [Num (Fin (196105 / 100)), Num (Fin 2)]),
             (2, [Num (Fin (196110 / 100)), Num (Fin 3)]),
             (3, [Num (Fin (196115 / 100)), Num (Fin 4)]),
             (4, [Num (Fin (196120 / 100)), Num (Fin 5)]),
             (5, [Num (Fin (196125 / 100)), Num (Fin 6)]),
             (6, [Num (Fin (196130 / 100)), Num (Fin 7)]),
             (7, [Num (Fin (196135 / 100)), Num (Fin 8)]),
             (8, [Num (Fin (196140 / 100)), Num (Fin 9)]),
             (9, [Num (Fin (196145 / 100)), Num (Fin 10)]),
             (10, [Num (Fin (196150 / 100)), Num (Fin 11)]),
             (11, [Num (Fin (196155 / 100)), Num (Fin 12)]),
             (12, [Num (Fin (196160 / 100)), Num (Fin 13)]),
             (13, [Num (Fin (196165 / 100)), Num (Fin 14)]),
             (14, [Num (Fin (196170 / 100)), Num (Fin 15)]),
             (15, [Num (Fin (196175 / 100)), Num (Fin 16)]),
             (16, [Num (Fin (196180 / 100)), Num (Fin 17)]),
             (17, [Num (Fin (196185 / 100)), Num (Fin 18)])]\<rparr>"

definition tied_keys :: "cell list" where
  "tied_keys =
    [Num (Fin 1961), Num (Fin 1961), Num (Fin 1961), Num (Fin 1961), Num (Fin 1961), Num (Fin 1961),
     Num (Fin 1961), Num (Fin 1961), Num (Fin 1961), Num (Fin 1961), Num (Fin 1961), Num (Fin 1961),
     Num (Fin 1961), Num (Fin 1961), Num (Fin 1961), Num (Fin 1961), Num (Fin 1961), Num (Fin 1961)]"

text \<open>An entity table with an unparsable Year and an unparsable metric cell.\<close>

definition table_malformed :: frame where
  "table_malformed = \<lparr>columns = [Str ''Year'', Str ''Yield''],
     rows = [(0, [Str ''1962'', Str ''abc'']),
             (1, [Str ''N/A'', Str ''7'']),
             (2, [Str ''1961'', Str ''300''])]\<rparr>"

text \<open>A world with nothing in it and a file system that refuses nothing.\<close>

definition empty_world :: world where
  "empty_world = \<lparr>dirs = [], files = [], stdout = [],
                   denied = (\<lambda>p. False), unwritable = (\<lambda>p. False)\<rparr>"




text \<open>
  The (Year, Element, Value) triples of the records of an entity, in input order.
\<close>

definition entity_records :: "frame \<Rightarrow> string \<Rightarrow> (cell \<times> cell \<times> cell) list" where
  "entity_records df country =
     map (\<lambda>r. (lookup_cell (columns df) (snd r) (Str ''Year''),
               lookup_cell (columns df) (snd r) (Str ''Element''),
               lookup_cell (columns df) (snd r) (Str ''Value'')))
       (filter (\<lambda>r. lookup_cell (columns df) (snd r) (Str ''Area'') = Str country) (rows df))"

text \<open>A store of two tables: the records of the scenario and an entity table.\<close>

definition sample_store :: heap where
  "sample_store = [scenario_numeric, table_malformed]"

section \<open>The sorting instances meet the contract\<close>

lemma num_le_total: "num_le a b \<or> num_le b a"
  by (cases a; cases b) auto

lemma num_le_trans: "num_le a b \<Longrightarrow> num_le b c \<Longrightarrow> num_le a c"
  by (cases a; cases b; cases c) auto

lemma key_le_total: "is_number a \<Longrightarrow> is_number b \<Longrightarrow> key_le a b \<or> key_le b a"
  by (cases a; cases b) (auto simp: num_le_total)

lemma key_le_trans:
  "is_number a \<Longrightarrow> is_number b \<Longrightarrow> is_number c \<Longrightarrow> key_le a b \<Longrightarrow> key_le b c \<Longrightarrow> key_le a c"
  by (cases a; cases b; cases c) (auto intro: num_le_trans)

lemma mset_insort_stable: "mset (insort_stable p qs) = add_mset p (mset qs)"
  by (induction qs) auto

lemma set_insort_stable: "set (insort_stable p qs) = insert p (set qs)"
  by (metis mset_insort_stable set_mset_add_mset_insert set_mset_mset)

lemma sorted_insort_stable:
  assumes "is_number (fst p)" "\<forall>q \<in> set qs. is_number (fst q)"
    "sorted_wrt (\<lambda>a b. key_le (fst a) (fst b)) qs"
  shows "sorted_wrt (\<lambda>a b. key_le (fst a) (fst b)) (insort_stable p qs)"
  using assms
proof (induction qs)
  case Nil
  then show ?case by simp
next
  case (Cons q qs)
  show ?case
  proof (cases "key_le (fst p) (fst q)")
    case True
    then have "\<forall>x \<in> set qs. key_le (fst p) (fst x)"
      using Cons.prems key_le_trans[of "fst p" "fst q"] by auto
    with True Cons.prems show ?thesis by simp
  next
    case False
    then have "key_le (fst q) (fst p)"
      using Cons.prems key_le_total[of "fst p" "fst q"] by auto
    with False Cons show ?thesis by (auto simp: set_insort_stable)
  qed
qed

lemma foldr_insort_stable:
  assumes "\<forall>q \<in> set ps. is_number (fst q)"
  shows "mset (foldr insort_stable ps []) = mset ps
       \<and> sorted_wrt (\<lambda>a b. key_le (fst a) (fst b)) (foldr insort_stable ps [])"
  using assms
proof (induction ps)
  case Nil
  then show ?case by simp
next
  case (Cons p ps)
  then have ih: "mset (foldr insort_stable ps []) = mset ps"
    "sorted_wrt (\<lambda>a b. key_le (fst a) (fst b)) (foldr insort_stable ps [])" by auto
  have "set (foldr insort_stable ps []) = set ps" using ih(1) by (metis set_mset_mset)
  then show ?case
    using Cons.prems ih by (simp add: mset_insort_stable sorted_insort_stable)
qed

lemma argsort_from_pairs:
  assumes m: "mset res = mset (zip ks [0 ..< length ks])"
    and s: "sorted_wrt (\<lambda>a b. key_le (fst a) (fst b)) res"
  shows "mset (map snd res) = mset [0 ..< length ks]
       \<and> sorted_wrt key_le (map ((!) ks) (map snd res))"
proof -
  have "mset (map snd res) = mset (map snd (zip ks [0 ..< length ks]))"
    using m by (metis mset_map)
  then have a: "mset (map snd res) = mset [0 ..< length ks]" by simp
  have "set res = set (zip ks [0 ..< length ks])" using m by (metis set_mset_mset)
  then have "\<forall>p \<in> set res. ks ! snd p = fst p"
    by (auto simp: set_zip)
  then have e: "map ((!) ks) (map snd res) = map fst res" by simp
  have "sorted_wrt key_le (map fst res)" using s by (simp add: sorted_wrt_map)
  then have "sorted_wrt key_le (map ((!) ks) (map snd res))" by (simp only: e)
  then show ?thesis using a by blast
qed

lemma argsort_ok_stable: "argsort_ok stable_argsort"
  unfolding argsort_ok_def stable_argsort_def
proof (intro allI impI)
  fix ks assume "list_all is_number ks"
  then have "\<forall>q \<in> set (zip ks [0 ..< length ks]). is_number (fst q)"
    by (auto simp: list_all_iff dest: set_zip_leftD)
  from foldr_insort_stable[OF this] show
    "mset (map snd (foldr insort_stable (zip ks [0..<length ks]) [])) = mset [0..<length ks] \<and>
       sorted_wrt key_le (map ((!) ks) (map snd (foldr insort_stable (zip ks [0..<length ks]) [])))"
    by (intro argsort_from_pairs) auto
qed

lemma argsort_single:
  assumes "argsort_ok f" and "is_number k"
  shows "f [k] = [0]"
proof -
  have "mset (f [k]) = mset [0 ..< length [k]]"
    using assms(1)[unfolded argsort_ok_def, rule_format, of "[k]"] assms(2) by simp
  then show ?thesis by simp
qed

section \<open>The scenario of two records\<close>

lemmas frame_ops =
  getitem_def getitem_mask_def getitem_list_def lookup_cell_def setitem_def dropna_subset_def
  reset_index_drop_def

lemmas reshape_defs =
  process_countries_data_def pivot_table_first_def unstack_def agg_first_def groupby_first_def
  first_valid_def reset_index_def cols_def sort_keys_def raw_columns_def

lemmas cleaner_defs =
  clean_and_sort_def astype_int_def metrics_def sort_values_def trunc_def

lemma process_scenario_text:
  "process_countries_data scenario_text ''Ghana'' =
     Inr \<lparr>columns = [Str ''Year'', Str ''Area harvested'', Str ''Yield''],
          rows = [(0, [Str ''1961'', Str ''100'', Str ''300''])]\<rparr>"
  by (simp add: scenario_text_def reshape_defs frame_ops Let_def)

lemma process_scenario_numeric:
  "process_countries_data scenario_numeric ''Ghana'' =
     Inr \<lparr>columns = [Str ''Year'', Str ''Area harvested'', Str ''Yield''],
          rows = [(0, [Num (Fin 1961), Num (Fin 100), Num (Fin 300)])]\<rparr>"
  by (simp add: scenario_numeric_def reshape_defs frame_ops Let_def)

text \<open>
  C8.  The two records (Ghana, 1961, Yield, 300) and (Ghana, 1961, Area harvested, 100),
  reshaped for Ghana and cleaned, give a table of exactly one row with Year 1961,
  Area harvested 100 and Yield 300, and with no Production column.  This holds with the
  fields as the texts of the scenario, for every library whose number parser reads the
  three texts as the numbers they spell, and with the fields as numbers.
\<close>

theorem scenario_ghana_1961:
  assumes "to_float L ''1961'' = Some (Fin 1961)"
    and "to_float L ''300'' = Some (Fin 300)"
    and "to_float L ''100'' = Some (Fin 100)"
    and "argsort_ok (argsort L)"
  shows "reshape_and_clean L scenario_text ''Ghana'' =
           Inr \<lparr>columns = [Str ''Year'', Str ''Area harvested'', Str ''Yield''],
                rows = [(0, [Num (Fin 1961), Num (Fin 100), Num (Fin 300)])]\<rparr>
       \<and> reshape_and_clean L scenario_numeric ''Ghana'' =
           Inr \<lparr>columns = [Str ''Year'', Str ''Area harvested'', Str ''Yield''],
                rows = [(0, [Num (Fin 1961), Num (Fin 100), Num (Fin 300)])]\<rparr>"
  using assms argsort_single[OF assms(4), of "Num (Fin 1961)"]
  by (simp add: reshape_and_clean_def process_scenario_text process_scenario_numeric
      cleaner_defs frame_ops Let_def)

theorem scenario_ghana_1961_witness:
  "to_float sample_lib ''1961'' = Some (Fin 1961)
   \<and> to_float sample_lib ''300'' = Some (Fin 300)
   \<and> to_float sample_lib ''100'' = Some (Fin 100)
   \<and> argsort_ok (argsort sample_lib)
   \<and> reshape_and_clean sample_lib scenario_text ''Ghana'' =
       Inr \<lparr>columns = [Str ''Year'', Str ''Area harvested'', Str ''Yield''],
            rows = [(0, [Num (Fin 1961), Num (Fin 100), Num (Fin 300)])]\<rparr>
   \<and> reshape_and_clean sample_lib scenario_numeric ''Ghana'' =
       Inr \<lparr>columns = [Str ''Year'', Str ''Area harvested'', Str ''Yield''],
            rows = [(0, [Num (Fin 1961), Num (Fin 100), Num (Fin 300)])]\<rparr>"
proof -
  have p1: "to_float sample_lib ''1961'' = Some (Fin 1961)"
    by (simp add: sample_lib_def parse_decimal_def)
  have p2: "to_float sample_lib ''300'' = Some (Fin 300)"
    by (simp add: sample_lib_def parse_decimal_def)
  have p3: "to_float sample_lib ''100'' = Some (Fin 100)"
    by (simp add: sample_lib_def parse_decimal_def)
  have p4: "argsort_ok (argsort sample_lib)"
    by (simp add: sample_lib_def argsort_ok_stable)
  show ?thesis
    using p1 p2 p3 p4 scenario_ghana_1961[OF p1 p2 p3 p4] by simp
qed

section \<open>Column positions\<close>

lemma col_pos_None_iff: "col_pos c xs = None \<longleftrightarrow> c \<notin> set xs"
  by (induction xs) auto

lemma col_pos_SomeD: "col_pos c xs = Some i \<Longrightarrow> i < length xs \<and> xs ! i = c"
  by (induction xs arbitrary: i) (auto split: if_splits)

lemma col_pos_in_set: "c \<in> set xs \<Longrightarrow> \<exists>i. col_pos c xs = Some i"
  using col_pos_None_iff[of c xs] by (cases "col_pos c xs") auto

section \<open>Chart renderers\<close>

text \<open>
  C1.  The combined renderer drops the rows without Yield of a table before it looks at
  anything else, and that call raises a key error on a table that has no Yield column.
  Evaluated on a cleaned table with the columns Year and Area harvested and on a second,
  complete table: the function raises whatever the output location, the key error as
  soon as the output directory is there (as it is for the directory \<^verbatim>\<open>output\<close> in a
  file system that refuses nothing), and the error of the directory otherwise.
\<close>

theorem plot_combined_raises_without_yield:
  "plot_combined table_no_yield table_full output_dir filename w =
     (case makedirs output_dir w of
        Inl e \<Rightarrow> Inl e
      | Inr w1 \<Rightarrow> Inl (KeyError [Str ''Yield'']))
   \<and> plot_combined table_no_yield table_full ''output'' ''combined_plots.pdf'' empty_world =
       Inl (KeyError [Str ''Yield''])"
  by (simp add: plot_combined_def panel_series_def dropna_subset_def table_no_yield_def
      makedirs_def empty_world_def split: sum.splits)

lemma plot_combined_raises_without_area:
  "plot_combined table_full table_no_area output_dir filename w =
     (case makedirs output_dir w of
        Inl e \<Rightarrow> Inl e
      | Inr w1 \<Rightarrow> Inl (KeyError [Str ''Area harvested'']))"
  by (simp add: plot_combined_def panel_series_def dropna_subset_def getitem_def
      table_no_area_def table_full_def split: sum.splits)

lemma panel_series_total:
  assumes "Str ''Year'' \<in> set (columns df)" and "metric \<in> set (columns df)"
  shows "\<exists>xs ys. panel_series df metric = Inr (xs, ys)"
proof -
  obtain i where i: "col_pos (Str ''Year'') (columns df) = Some i"
    using col_pos_in_set[OF assms(1)] by blast
  obtain j where j: "col_pos metric (columns df) = Some j"
    using col_pos_in_set[OF assms(2)] by blast
  show ?thesis by (simp add: panel_series_def dropna_subset_def getitem_def i j)
qed

lemma plot_combined_complete_tables:
  assumes "{Str ''Year'', Str ''Yield'', Str ''Area harvested''} \<subseteq> set (columns ghana_df)"
    and "{Str ''Year'', Str ''Yield'', Str ''Area harvested''} \<subseteq> set (columns coast_df)"
    and "makedirs output_dir w = Inr w1"
    and "\<not> unwritable w1 (path_join output_dir filename)"
  shows "\<exists>gx gy cx cy gbx gby cbx cby w2.
           savefig (path_join output_dir filename)
             [Scatter gx gy, Scatter cx cy, Bar gbx gby, Bar cbx cby] w1 = Inr w2
           \<and> plot_combined ghana_df coast_df output_dir filename w =
               Inr (print (''Saved combined plot with annotations: ''
                            @ path_join output_dir filename) w2)"
proof -
  obtain gx gy where 1: "panel_series ghana_df (Str ''Yield'') = Inr (gx, gy)"
    using panel_series_total[of ghana_df "Str ''Yield''"] assms(1) by auto
  obtain cx cy where 2: "panel_series coast_df (Str ''Yield'') = Inr (cx, cy)"
    using panel_series_total[of coast_df "Str ''Yield''"] assms(2) by auto
  obtain gbx gby where 3: "panel_series ghana_df (Str ''Area harvested'') = Inr (gbx, gby)"
    using panel_series_total[of ghana_df "Str ''Area harvested''"] assms(1) by auto
  obtain cbx cby where 4: "panel_series coast_df (Str ''Area harvested'') = Inr (cbx, cby)"
    using panel_series_total[of coast_df "Str ''Area harvested''"] assms(2) by auto
  let ?fig = "[Scatter gx gy, Scatter cx cy, Bar gbx gby, Bar cbx cby]"
  obtain w2 where w2: "savefig (path_join output_dir filename) ?fig w1 = Inr w2"
    using assms(4) by (simp add: savefig_def)
  have "plot_combined ghana_df coast_df output_dir filename w =
           Inr (print (''Saved combined plot with annotations: ''
                        @ path_join output_dir filename) w2)"
    by (simp add: plot_combined_def assms(3) 1 2 3 4 w2)
  with w2 show ?thesis by blast
qed

lemma dropna_all_missing:
  assumes "c \<in> set (columns df)"
    and "\<forall>r \<in> set (rows df). lookup_cell (columns df) (snd r) c = NaN"
  shows "\<exists>d. dropna_subset df c = Inr d \<and> empty_frame d"
proof -
  obtain i where i: "col_pos c (columns df) = Some i"
    using col_pos_in_set[OF assms(1)] by blast
  have "filter (\<lambda>r. snd r ! i \<noteq> NaN) (rows df) = []"
    using assms(2) by (auto simp: lookup_cell_def i filter_empty_conv)
  then show ?thesis by (simp add: dropna_subset_def i empty_frame_def)
qed

lemma makedirs_keeps_files:
  "makedirs d w = Inr w1 \<Longrightarrow> files w1 = files w \<and> stdout w1 = stdout w"
  by (auto simp: makedirs_def split: if_splits)

text \<open>
  C7, as stated, at an input: a table without a Yield column and the empty output
  directory (what \<^verbatim>\<open>-o ""\<close> gives).  Both renderers call \<^verbatim>\<open>os.makedirs\<close> before they look
  at the columns, and its error is raised: the call does not return and prints no notice.
\<close>

theorem skip_raises_when_directory_fails:
  "Str ''Yield'' \<notin> set (columns table_no_yield)
   \<and> plot_scatter table_no_yield ''Ghana'' [] ''ghana_yield_scatter.png'' empty_world
       = Inl (FileNotFoundError [])
   \<and> Str ''Area harvested'' \<notin> set (columns table_no_area)
   \<and> plot_bar table_no_area ''Ghana'' [] ''ghana_area_bar.png'' empty_world
       = Inl (FileNotFoundError [])"
  by (simp add: plot_scatter_def plot_bar_def makedirs_def table_no_yield_def table_no_area_def)

text \<open>
  C7, amended.  Both renderers first ensure the output directory, and raise its error
  when that fails.  When the directory is there, then on a table without a Yield column,
  and on a table whose Yield column holds no value, the scatter renderer returns without
  raising, writes no file and prints one skip notice; the same holds for the bar renderer
  and the Area harvested column.
\<close>

theorem single_chart_skip_policy:
  "(\<forall>e. makedirs output_dir w = Inl e \<longrightarrow>
        plot_scatter df country_name output_dir filename w = Inl e
      \<and> plot_bar df country_name output_dir filename w = Inl e)
   \<and> ((\<exists>w1. makedirs output_dir w = Inr w1) \<longrightarrow>
      (Str ''Yield'' \<notin> set (columns df) \<longrightarrow>
        (\<exists>w'. plot_scatter df country_name output_dir filename w = Inr w' \<and> files w' = files w
           \<and> stdout w' = stdout w @ [''Warning: 'Yield' column not found for '' @ country_name
                                       @ ''. Skipping scatter plot.'']))
    \<and> (Str ''Yield'' \<in> set (columns df)
          \<and> (\<forall>r \<in> set (rows df). lookup_cell (columns df) (snd r) (Str ''Yield'') = NaN) \<longrightarrow>
        (\<exists>w'. plot_scatter df country_name output_dir filename w = Inr w' \<and> files w' = files w
           \<and> stdout w' = stdout w @ [''Warning: No valid Yield values for '' @ country_name
                                       @ ''. Skipping scatter plot.'']))
    \<and> (Str ''Area harvested'' \<notin> set (columns df) \<longrightarrow>
        (\<exists>w'. plot_bar df country_name output_dir filename w = Inr w' \<and> files w' = files w
           \<and> stdout w' = stdout w @ [''Warning: 'Area harvested' column not found for ''
                                       @ country_name @ ''. Skipping bar chart.'']))
    \<and> (Str ''Area harvested'' \<in> set (columns df)
          \<and> (\<forall>r \<in> set (rows df).
                lookup_cell (columns df) (snd r) (Str ''Area harvested'') = NaN) \<longrightarrow>
        (\<exists>w'. plot_bar df country_name output_dir filename w = Inr w' \<and> files w' = files w
           \<and> stdout w' = stdout w @ [''Warning: No valid Area harvested values for ''
                                       @ country_name @ ''. Skipping bar chart.''])))"
proof (intro conjI allI impI)
  fix e assume "makedirs output_dir w = Inl e"
  then show "plot_scatter df country_name output_dir filename w = Inl e"
    and "plot_bar df country_name output_dir filename w = Inl e"
    by (simp_all add: plot_scatter_def plot_bar_def)
next
  assume "\<exists>w1. makedirs output_dir w = Inr w1" and "Str ''Yield'' \<notin> set (columns df)"
  then obtain w1 where m: "makedirs output_dir w = Inr w1" by blast
  note k = makedirs_keeps_files[OF m]
  show "\<exists>w'. plot_scatter df country_name output_dir filename w = Inr w' \<and> files w' = files w
         \<and> stdout w' = stdout w @ [''Warning: 'Yield' column not found for '' @ country_name
                                     @ ''. Skipping scatter plot.'']"
    using \<open>Str ''Yield'' \<notin> set (columns df)\<close> k by (simp add: plot_scatter_def m print_def)
next
  assume "\<exists>w1. makedirs output_dir w = Inr w1"
    and a: "Str ''Yield'' \<in> set (columns df)
        \<and> (\<forall>r \<in> set (rows df). lookup_cell (columns df) (snd r) (Str ''Yield'') = NaN)"
  then obtain w1 where m: "makedirs output_dir w = Inr w1" by blast
  note k = makedirs_keeps_files[OF m]
  obtain d where "dropna_subset df (Str ''Yield'') = Inr d" "empty_frame d"
    using a dropna_all_missing[of "Str ''Yield''" df] by blast
  then show "\<exists>w'. plot_scatter df country_name output_dir filename w = Inr w' \<and> files w' = files w
         \<and> stdout w' = stdout w @ [''Warning: No valid Yield values for '' @ country_name
                                     @ ''. Skipping scatter plot.'']"
    using a k by (simp add: plot_scatter_def m print_def)
next
  assume "\<exists>w1. makedirs output_dir w = Inr w1"
    and "Str ''Area harvested'' \<notin> set (columns df)"
  then obtain w1 where m: "makedirs output_dir w = Inr w1" by blast
  note k = makedirs_keeps_files[OF m]
  show "\<exists>w'. plot_bar df country_name output_dir filename w = Inr w' \<and> files w' = files w
         \<and> stdout w' = stdout w @ [''Warning: 'Area harvested' column not found for ''
                                     @ country_name @ ''. Skipping bar chart.'']"
    using \<open>Str ''Area harvested'' \<notin> set (columns df)\<close> k
    by (simp add: plot_bar_def m print_def)
next
  assume "\<exists>w1. makedirs output_dir w = Inr w1"
    and a: "Str ''Area harvested'' \<in> set (columns df)
        \<and> (\<forall>r \<in> set (rows df).
              lookup_cell (columns df) (snd r) (Str ''Area harvested'') = NaN)"
  then obtain w1 where m: "makedirs output_dir w = Inr w1" by blast
  note k = makedirs_keeps_files[OF m]
  obtain d where "dropna_subset df (Str ''Area harvested'') = Inr d" "empty_frame d"
    using a dropna_all_missing[of "Str ''Area harvested''" df] by blast
  then show "\<exists>w'. plot_bar df country_name output_dir filename w = Inr w' \<and> files w' = files w
         \<and> stdout w' = stdout w @ [''Warning: No valid Area harvested values for ''
                                     @ country_name @ ''. Skipping bar chart.'']"
    using a k by (simp add: plot_bar_def m print_def)
qed

theorem single_chart_skip_policy_witness:
  "makedirs [] empty_world = Inl (FileNotFoundError [])
   \<and> plot_scatter table_no_yield ''Ghana'' [] ''ghana_yield_scatter.png'' empty_world
       = Inl (FileNotFoundError [])
   \<and> plot_bar table_no_area ''Ghana'' [] ''ghana_area_bar.png'' empty_world
       = Inl (FileNotFoundError [])
   \<and> (\<exists>w1. makedirs ''output'' empty_world = Inr w1)
   \<and> Str ''Yield'' \<notin> set (columns table_no_yield)
   \<and> (\<exists>w'. plot_scatter table_no_yield ''Ghana'' ''output'' ''ghana_yield_scatter.png'' empty_world
            = Inr w' \<and> files w' = [] \<and> stdout w' =
              [''Warning: 'Yield' column not found for Ghana. Skipping scatter plot.''])
   \<and> Str ''Area harvested'' \<notin> set (columns table_no_area)
   \<and> (\<exists>w'. plot_bar table_no_area ''Ghana'' ''output'' ''ghana_area_bar.png'' empty_world
            = Inr w' \<and> files w' = [] \<and> stdout w' =
              [''Warning: 'Area harvested' column not found for Ghana. Skipping bar chart.''])
   \<and> Str ''Yield'' \<in> set (columns table_blank_metrics)
   \<and> list_all (\<lambda>r. lookup_cell (columns table_blank_metrics) (snd r) (Str ''Yield'') = NaN)
        (rows table_blank_metrics)
   \<and> (\<exists>w'. plot_scatter table_blank_metrics ''Ghana'' ''output'' ''ghana_yield_scatter.png''
              empty_world = Inr w' \<and> files w' = [] \<and> stdout w' =
              [''Warning: No valid Yield values for Ghana. Skipping scatter plot.''])
   \<and> Str ''Area harvested'' \<in> set (columns table_blank_metrics)
   \<and> list_all (\<lambda>r. lookup_cell (columns table_blank_metrics) (snd r) (Str ''Area harvested'') = NaN)
        (rows table_blank_metrics)
   \<and> (\<exists>w'. plot_bar table_blank_metrics ''Ghana'' ''output'' ''ghana_area_bar.png''
              empty_world = Inr w' \<and> files w' = [] \<and> stdout w' =
              [''Warning: No valid Area harvested values for Ghana. Skipping bar chart.''])"
proof -
  have f: "makedirs [] empty_world = Inl (FileNotFoundError [])"
    by (simp add: makedirs_def)
  have m: "\<exists>w1. makedirs ''output'' empty_world = Inr w1"
    by (simp add: makedirs_def empty_world_def)
  have a: "Str ''Yield'' \<notin> set (columns table_no_yield)"
    by (simp add: table_no_yield_def)
  have b: "Str ''Area harvested'' \<notin> set (columns table_no_area)"
    by (simp add: table_no_area_def)
  have c: "Str ''Yield'' \<in> set (columns table_blank_metrics)"
    "Str ''Area harvested'' \<in> set (columns table_blank_metrics)"
    by (simp_all add: table_blank_metrics_def)
  have d: "\<forall>r \<in> set (rows table_blank_metrics).
             lookup_cell (columns table_blank_metrics) (snd r) (Str ''Yield'') = NaN"
    "\<forall>r \<in> set (rows table_blank_metrics).
             lookup_cell (columns table_blank_metrics) (snd r) (Str ''Area harvested'') = NaN"
    by (simp_all add: table_blank_metrics_def lookup_cell_def)
  note t0s = single_chart_skip_policy[of "[]" empty_world table_no_yield "''Ghana''"
      "''ghana_yield_scatter.png''"]
  note t0b = single_chart_skip_policy[of "[]" empty_world table_no_area "''Ghana''"
      "''ghana_area_bar.png''"]
  note t1 = single_chart_skip_policy[of "''output''" empty_world table_no_yield "''Ghana''"
      "''ghana_yield_scatter.png''"]
  note t2 = single_chart_skip_policy[of "''output''" empty_world table_no_area "''Ghana''"
      "''ghana_area_bar.png''"]
  note t3 = single_chart_skip_policy[of "''output''" empty_world table_blank_metrics "''Ghana''"
      "''ghana_yield_scatter.png''"]
  note t4 = single_chart_skip_policy[of "''output''" empty_world table_blank_metrics "''Ghana''"
      "''ghana_area_bar.png''"]
  have e: "files empty_world = []" "stdout empty_world = []" by (simp_all add: empty_world_def)
  have r0: "plot_scatter table_no_yield ''Ghana'' [] ''ghana_yield_scatter.png'' empty_world
       = Inl (FileNotFoundError [])"
    using t0s f by blast
  have r0b: "plot_bar table_no_area ''Ghana'' [] ''ghana_area_bar.png'' empty_world
       = Inl (FileNotFoundError [])"
    using t0b f by blast
  have r1: "\<exists>w'. plot_scatter table_no_yield ''Ghana'' ''output'' ''ghana_yield_scatter.png'' empty_world
            = Inr w' \<and> files w' = [] \<and> stdout w' =
              [''Warning: 'Yield' column not found for Ghana. Skipping scatter plot.'']"
    using t1 m a e by simp
  have r2: "\<exists>w'. plot_bar table_no_area ''Ghana'' ''output'' ''ghana_area_bar.png'' empty_world
            = Inr w' \<and> files w' = [] \<and> stdout w' =
              [''Warning: 'Area harvested' column not found for Ghana. Skipping bar chart.'']"
    using t2 m b e by simp
  have r3: "\<exists>w'. plot_scatter table_blank_metrics ''Ghana'' ''output'' ''ghana_yield_scatter.png''
              empty_world = Inr w' \<and> files w' = [] \<and> stdout w' =
              [''Warning: No valid Yield values for Ghana. Skipping scatter plot.'']"
    using t3 m c d e by simp
  have r4: "\<exists>w'. plot_bar table_blank_metrics ''Ghana'' ''output'' ''ghana_area_bar.png''
              empty_world = Inr w' \<and> files w' = [] \<and> stdout w' =
              [''Warning: No valid Area harvested values for Ghana. Skipping bar chart.'']"
    using t4 m c d e by simp
  show ?thesis using f m a b c d r0 r0b r1 r2 r3 r4 by (simp add: list_all_iff)
qed

section \<open>Cleaner: a Year that is not finite\<close>

text \<open>
  C2.  The cleaner raises on an entity table whose Year is infinite: the value is a
  number, so parsing leaves it and the drop of missing Years keeps its row, and the cast
  to integer rejects it.  Evaluated on the table of one row with Year infinity, for
  every library.
\<close>

theorem clean_and_sort_raises_on_infinite_year:
  "clean_and_sort L table_inf_year = Inl IntCastingNaNError"
  by (simp add: table_inf_year_def clean_and_sort_def getitem_def setitem_def dropna_subset_def
      astype_int_def)

text \<open>
  C5.  The cleaner has no output on an entity table in which one Year is infinite: it
  raises, although the Year of another row (1961) parses as a number, so that the row
  should be in the output with the Year 1961.  The infinite Year is a number: parsing
  leaves it, the drop of missing Years keeps its row, and the cast of the column to
  integers rejects it.  Evaluated on a table of two rows, for every library.
\<close>

theorem clean_and_sort_no_output_with_infinite_year:
  "(1, [Num (Fin 1961), Num (Fin 5)]) \<in> set (rows table_inf_among_years)
   \<and> spec_year_parses L (columns table_inf_among_years) [Num (Fin 1961), Num (Fin 5)]
   \<and> clean_and_sort L table_inf_among_years = Inl IntCastingNaNError"
  by (simp add: table_inf_among_years_def clean_and_sort_def getitem_def setitem_def
      dropna_subset_def astype_int_def spec_year_parses_def lookup_cell_def)

lemma clean_and_sort_raises_on_infinite_text:
  assumes "to_float L ''inf'' = Some PInf"
  shows "clean_and_sort L \<lparr>columns = [Str ''Year''], rows = [(0, [Str ''inf''])]\<rparr>
           = Inl IntCastingNaNError"
  using assms
  by (simp add: clean_and_sort_def getitem_def setitem_def dropna_subset_def astype_int_def)

section \<open>Loader\<close>












lemma bool_literal_examples:
  "is_bool_literal ''True'' \<and> is_bool_literal ''false'' \<and> is_bool_literal ''FALSE''
   \<and> \<not> is_bool_literal ''Yield'' \<and> \<not> is_bool_literal ''1961''"
  by (simp add: is_bool_literal_def fold_case_def)




section \<open>Filter and reshape\<close>

lemma filter_by_mask: "map fst (filter snd (zip xs (map P xs))) = filter P xs"
  by (induction xs) auto

lemma zip3_map: "zip (map f xs) (zip (map g xs) (map h xs)) = map (\<lambda>x. (f x, g x, h x)) xs"
  by (induction xs) auto

lemma pivot_table_first_projected:
  "pivot_table_first
     \<lparr>columns = [Str ''Year'', Str ''Element'', Str ''Value''],
      rows = map (\<lambda>r. (fst r, [f r, g r, h r])) rs\<rparr>
     (Str ''Year'') (Str ''Element'') (Str ''Value'')
   = Inr (unstack (agg_first (map (\<lambda>r. (f r, g r, h r)) rs)))"
proof -
  have "zip (map f rs) (zip (map g rs) (map h rs)) = map (\<lambda>r. (f r, g r, h r)) rs"
    by (rule zip3_map)
  then show ?thesis
    by (simp add: pivot_table_first_def getitem_def comp_def)
qed

lemma process_countries_data_eq:
  assumes "set raw_columns \<subseteq> set (columns df)"
  shows "process_countries_data df country =
     (case reset_index (Str ''Year'') (unstack (agg_first (entity_records df country))) of
        Inl e \<Rightarrow> Inl e
      | Inr pivot_df \<Rightarrow>
          getitem_list pivot_df (filter (\<lambda>c. c \<in> set (columns pivot_df)) cols))"
proof -
  have mem: "Str ''Area'' \<in> set (columns df)" "Str ''Year'' \<in> set (columns df)"
    "Str ''Element'' \<in> set (columns df)" "Str ''Value'' \<in> set (columns df)"
    using assms by (auto simp: raw_columns_def)
  obtain a where a: "col_pos (Str ''Area'') (columns df) = Some a"
    using col_pos_in_set[OF mem(1)] by blast
  let ?sel = "filter (\<lambda>r. lookup_cell (columns df) (snd r) (Str ''Area'') = Str country) (rows df)"
  have area: "getitem df (Str ''Area'')
      = Inr (map (\<lambda>r. lookup_cell (columns df) (snd r) (Str ''Area'')) (rows df))"
    by (simp add: getitem_def lookup_cell_def a)
  have masked: "getitem_mask df (map (\<lambda>a. a = Str country)
        (map (\<lambda>r. lookup_cell (columns df) (snd r) (Str ''Area'')) (rows df)))
      = df\<lparr>rows := ?sel\<rparr>"
    using filter_by_mask[of "rows df"
        "\<lambda>r. lookup_cell (columns df) (snd r) (Str ''Area'') = Str country"]
    by (simp add: getitem_mask_def comp_def)
  have proj: "getitem_list (df\<lparr>rows := ?sel\<rparr>) [Str ''Year'', Str ''Element'', Str ''Value'']
      = Inr \<lparr>columns = [Str ''Year'', Str ''Element'', Str ''Value''],
             rows = map (\<lambda>r. (fst r, [lookup_cell (columns df) (snd r) (Str ''Year''),
                                     lookup_cell (columns df) (snd r) (Str ''Element''),
                                     lookup_cell (columns df) (snd r) (Str ''Value'')])) ?sel\<rparr>"
    using mem by (simp add: getitem_list_def)
  show ?thesis
    by (simp only: process_countries_data_def area sum.case masked proj
        pivot_table_first_projected entity_records_def Let_def)
qed

lemma mset_insort_key_le: "mset (insort_key_le k xs) = add_mset k (mset xs)"
  by (induction xs) auto

lemma mset_sort_keys: "mset (sort_keys xs) = mset xs"
  by (induction xs) (auto simp: sort_keys_def mset_insort_key_le)

lemma set_sort_keys: "set (sort_keys xs) = set xs"
  by (metis mset_sort_keys set_mset_mset)

lemma distinct_sort_keys: "distinct (sort_keys xs) = distinct xs"
  by (metis mset_sort_keys mset_eq_imp_distinct_iff)

lemma zip_map_same: "zip xs (map f xs) = map (\<lambda>x. (x, f x)) xs"
  by (induction xs) auto

text \<open>The rows of the table that \<open>reset_index\<close> builds from an unstacked pivot.\<close>

lemma unstack_fields:
  "pindex (unstack agged) = sort_keys (remdups (map (\<lambda>(k, x). fst k) agged))"
  "pcolumns (unstack agged) = sort_keys (remdups (map (\<lambda>(k, x). snd k) agged))"
  "pvalues (unstack agged) =
     map (\<lambda>y. map (\<lambda>e. case map_of agged (y, e) of Some x \<Rightarrow> x | None \<Rightarrow> NaN)
                 (pcolumns (unstack agged))) (pindex (unstack agged))"
  by (simp_all add: unstack_def Let_def)

lemma distinct_pindex: "distinct (pindex (unstack agged))"
  by (simp add: unstack_fields distinct_sort_keys)


lemma set_pcolumns: "set (pcolumns (unstack agged)) = (\<lambda>(k, x). snd k) ` set agged"
  by (simp add: unstack_fields set_sort_keys)

lemma reset_index_rows:
  assumes "reset_index name (unstack agged) = Inr t"
  shows "columns t = name # pcolumns (unstack agged)"
    and "map snd (rows t) =
         map (\<lambda>y. y # map (\<lambda>e. case map_of agged (y, e) of Some x \<Rightarrow> x | None \<Rightarrow> NaN)
                          (pcolumns (unstack agged))) (pindex (unstack agged))"
    and "name \<notin> set (pcolumns (unstack agged))"
proof -
  let ?p = "unstack agged"
  have n: "name \<notin> set (pcolumns ?p)"
    using assms by (auto simp: reset_index_def split: if_splits)
  then have t: "t = \<lparr>columns = name # pcolumns ?p,
                rows = zip [0 ..< length (pindex ?p)]
                         (map (\<lambda>(y, vs). y # vs) (zip (pindex ?p) (pvalues ?p)))\<rparr>"
    using assms by (simp add: reset_index_def)
  show "columns t = name # pcolumns ?p" by (simp add: t)
  show "name \<notin> set (pcolumns ?p)" by (rule n)
  have "zip (pindex ?p) (pvalues ?p) =
        map (\<lambda>y. (y, map (\<lambda>e. case map_of agged (y, e) of Some x \<Rightarrow> x | None \<Rightarrow> NaN)
                        (pcolumns ?p))) (pindex ?p)"
    by (subst unstack_fields(3)) (rule zip_map_same)
  then show "map snd (rows t) =
         map (\<lambda>y. y # map (\<lambda>e. case map_of agged (y, e) of Some x \<Rightarrow> x | None \<Rightarrow> NaN)
                          (pcolumns ?p)) (pindex ?p)"
    by (simp add: t comp_def)
qed

lemma getitem_list_all_present:
  assumes "set cs \<subseteq> set (columns df)"
  shows "getitem_list df cs =
     Inr \<lparr>columns = cs,
          rows = map (\<lambda>r. (fst r, map (lookup_cell (columns df) (snd r)) cs)) (rows df)\<rparr>"
proof -
  have "filter (\<lambda>c. c \<notin> set (columns df)) cs = []"
    using assms by (auto simp: filter_empty_conv)
  then show ?thesis by (simp add: getitem_list_def)
qed

lemma getitem_of_projection:
  assumes "c \<in> set cs"
  shows "getitem \<lparr>columns = cs, rows = map (\<lambda>r. (fst r, map (f (snd r)) cs)) rs\<rparr> c
         = Inr (map (\<lambda>r. f (snd r) c) rs)"
proof -
  obtain i where i: "col_pos c cs = Some i" using col_pos_in_set[OF assms] by blast
  then have "i < length cs" "cs ! i = c" using col_pos_SomeD by auto
  then show ?thesis by (simp add: getitem_def i)
qed

lemma lookup_cell_head: "lookup_cell (name # cs) (y # vs) name = y"
  by (simp add: lookup_cell_def)

lemma lookup_cell_tail:
  assumes "c \<noteq> name" and "c \<in> set cs"
  shows "lookup_cell (name # cs) (y # map f cs) c = f c"
proof -
  obtain i where i: "col_pos c cs = Some i" using col_pos_in_set[OF assms(2)] by blast
  then have "i < length cs" "cs ! i = c" using col_pos_SomeD by auto
  then show ?thesis using assms(1) by (simp add: lookup_cell_def i)
qed

text \<open>
  The table returned, column by column: the Year column is the pivot's index, a metric
  column holds the entry of each (Year, Element) group, missing where there is none.
\<close>

lemma process_countries_data_columns:
  assumes c: "set raw_columns \<subseteq> set (columns df)"
    and r: "process_countries_data df country = Inr out"
  shows "getitem out (Str ''Year'')
           = Inr (pindex (unstack (agg_first (entity_records df country))))"
    and "elem \<in> set metrics \<Longrightarrow>
         elem \<in> set (pcolumns (unstack (agg_first (entity_records df country)))) \<Longrightarrow>
         getitem out elem =
           Inr (map (\<lambda>y. case map_of (agg_first (entity_records df country)) (y, elem) of
                          Some x \<Rightarrow> x | None \<Rightarrow> NaN)
                  (pindex (unstack (agg_first (entity_records df country)))))"
    and "columns out = filter (\<lambda>c. c \<in> set (Str ''Year''
           # pcolumns (unstack (agg_first (entity_records df country))))) cols"
proof -
  let ?ag = "agg_first (entity_records df country)"
  let ?p = "unstack ?ag"
  let ?F = "\<lambda>y e. case map_of ?ag (y, e) of Some x \<Rightarrow> x | None \<Rightarrow> NaN"
  obtain t where t: "reset_index (Str ''Year'') ?p = Inr t"
    and o: "getitem_list t (filter (\<lambda>c. c \<in> set (columns t)) cols) = Inr out"
    using r unfolding process_countries_data_eq[OF c] by (auto split: sum.splits)
  note tr = reset_index_rows[OF t]
  let ?ex = "filter (\<lambda>c. c \<in> set (columns t)) cols"
  have "set ?ex \<subseteq> set (columns t)" by auto
  from getitem_list_all_present[OF this] o
  have out: "out = \<lparr>columns = ?ex,
       rows = map (\<lambda>r. (fst r, map (lookup_cell (columns t) (snd r)) ?ex)) (rows t)\<rparr>"
    by simp
  show "columns out = filter (\<lambda>c. c \<in> set (Str ''Year'' # pcolumns ?p)) cols"
    by (simp add: out tr(1))
  have g: "\<And>c. c \<in> set ?ex \<Longrightarrow>
      getitem out c = Inr (map (\<lambda>r. lookup_cell (columns t) r c) (map snd (rows t)))"
    unfolding out using getitem_of_projection[of _ ?ex "lookup_cell (columns t)" "rows t"]
    by (simp add: comp_def)
  have "Str ''Year'' \<in> set ?ex" by (simp add: tr(1) cols_def)
  from g[OF this] show "getitem out (Str ''Year'') = Inr (pindex ?p)"
    by (simp add: tr(1) tr(2) comp_def lookup_cell_head)
  assume m: "elem \<in> set metrics" and e: "elem \<in> set (pcolumns ?p)"
  have ne: "elem \<noteq> Str ''Year''" using e tr(3) by auto
  have "elem \<in> set ?ex" using m e by (auto simp: tr(1) cols_def metrics_def)
  from g[OF this] show "getitem out elem = Inr (map (\<lambda>y. ?F y elem) (pindex ?p))"
    by (simp add: tr(1) tr(2) comp_def lookup_cell_tail[OF ne e])
qed

lemma map_of_agg_first:
  "map_of (agg_first long) k =
     (if k \<in> set (map (\<lambda>(i, c, v). (i, c)) (filter (\<lambda>(i, c, v). i \<noteq> NaN \<and> c \<noteq> NaN) long))
         \<and> first_valid long k \<noteq> NaN
      then Some (first_valid long k) else None)"
proof -
  have gen: "map_of (filter (\<lambda>(k, x). x \<noteq> NaN) (map (\<lambda>k. (k, f k)) ks)) k =
     (if k \<in> set ks \<and> f k \<noteq> NaN then Some (f k) else None)" for f and ks :: "(cell \<times> cell) list"
    by (induction ks) auto
  show ?thesis
    unfolding agg_first_def groupby_first_def Let_def gen by simp
qed

lemma valid_keys_member:
  "(i, c) \<in> set (map (\<lambda>(i, c, v). (i, c)) (filter (\<lambda>(i, c, v). i \<noteq> NaN \<and> c \<noteq> NaN) long))
     \<longleftrightarrow> i \<noteq> NaN \<and> c \<noteq> NaN \<and> (\<exists>v. (i, c, v) \<in> set long)"
  by (induction long) auto

lemma agg_first_member:
  "((i, c), x) \<in> set (agg_first long) \<longleftrightarrow>
     i \<noteq> NaN \<and> c \<noteq> NaN \<and> (\<exists>v. (i, c, v) \<in> set long)
     \<and> x = first_valid long (i, c) \<and> x \<noteq> NaN"
proof -
  have "((i, c), x) \<in> set (agg_first long) \<longleftrightarrow> map_of (agg_first long) (i, c) = Some x"
  proof
    assume "map_of (agg_first long) (i, c) = Some x"
    then show "((i, c), x) \<in> set (agg_first long)" by (rule map_of_SomeD)
  next
    assume "((i, c), x) \<in> set (agg_first long)"
    moreover have "distinct (map fst (agg_first long))"
      unfolding agg_first_def groupby_first_def Let_def
      by (rule distinct_map_filter) (simp add: comp_def)
    ultimately show "map_of (agg_first long) (i, c) = Some x" by simp
  qed
  then show ?thesis
    unfolding map_of_agg_first valid_keys_member by auto
qed



lemma process_countries_data_returns:
  assumes c: "set raw_columns \<subseteq> set (columns df)"
    and n: "list_all (\<lambda>r. lookup_cell (columns df) (snd r) (Str ''Area'') = Str country
                   \<longrightarrow> lookup_cell (columns df) (snd r) (Str ''Element'') \<noteq> Str ''Year'')
              (rows df)"
  shows "\<exists>out. process_countries_data df country = Inr out"
proof -
  let ?ag = "agg_first (entity_records df country)"
  have "Str ''Year'' \<notin> set (pcolumns (unstack ?ag))"
  proof
    assume "Str ''Year'' \<in> set (pcolumns (unstack ?ag))"
    then obtain y x where "((y, Str ''Year''), x) \<in> set ?ag"
      by (auto simp: set_pcolumns)
    then obtain v where "(y, Str ''Year'', v) \<in> set (entity_records df country)"
      unfolding agg_first_member by auto
    then obtain r where "r \<in> set (rows df)"
      "lookup_cell (columns df) (snd r) (Str ''Area'') = Str country"
      "lookup_cell (columns df) (snd r) (Str ''Element'') = Str ''Year''"
      by (auto simp: entity_records_def)
    then show False using n by (auto simp: list_all_iff)
  qed
  then obtain t where t: "reset_index (Str ''Year'') (unstack ?ag) = Inr t"
    by (simp add: reset_index_def)
  have "set (filter (\<lambda>c. c \<in> set (columns t)) cols) \<subseteq> set (columns t)" by auto
  from getitem_list_all_present[OF this] show ?thesis
    unfolding process_countries_data_eq[OF c] t by simp
qed

text \<open>
  The cells of the Year column of the reshaped table are pairwise distinct: they are the
  index keys of the pivot.
\<close>

lemma reshape_year_cells_distinct:
  assumes "set raw_columns \<subseteq> set (columns df)"
    and "process_countries_data df country = Inr out"
  shows "\<exists>ys. getitem out (Str ''Year'') = Inr ys \<and> distinct ys"
  using process_countries_data_columns(1)[OF assms] distinct_pindex by simp



text \<open>
  Two records of one key that both lack a value, and no other record: the reshaped table
  has the Year column and no row.
\<close>

lemma reshape_only_missing_values:
  "process_countries_data collision_only_missing ''Ghana'' =
     Inr \<lparr>columns = [Str ''Year''], rows = []\<rparr>"
  by (simp add: collision_only_missing_def reshape_defs frame_ops Let_def)






section \<open>Cleaner\<close>

lemma length_map_cells:
  "length r = length labels \<Longrightarrow> length (map_cells f labels r) = length labels"
  by (simp add: map_cells_def)

lemma nth_map_cells:
  "length r = length labels \<Longrightarrow> k < length labels \<Longrightarrow>
   map_cells f labels r ! k = f (labels ! k) (r ! k)"
  by (simp add: map_cells_def)

lemma map_cells_comp:
  assumes "length r = length labels"
  shows "map_cells f labels (map_cells g labels r) = map_cells (\<lambda>l x. f l (g l x)) labels r"
  using assms
  by (intro nth_equalityI) (simp_all add: length_map_cells nth_map_cells)

lemma map_cells_cong:
  assumes "\<And>l x. l \<in> set labels \<Longrightarrow> f l x = g l x"
  shows "map_cells f labels r = map_cells g labels r"
  unfolding map_cells_def using assms by (auto dest: set_zip_leftD)

lemma spec_clean_row_map_cells: "spec_clean_row L = map_cells (spec_clean_cell L)"
  by (intro ext) (simp add: spec_clean_row_def map_cells_def)

lemma update_as_map_cells:
  assumes d: "distinct labels" and l: "length r = length labels"
  shows "(case col_pos c labels of Some j \<Rightarrow> r[j := f (r ! j)] | None \<Rightarrow> r)
         = map_cells (\<lambda>l x. if l = c then f x else x) labels r"
proof (cases "col_pos c labels")
  case None
  then have "c \<notin> set labels" by (simp add: col_pos_None_iff)
  then have "map_cells (\<lambda>l x. if l = c then f x else x) labels r = map_cells (\<lambda>l x. x) labels r"
    by (intro map_cells_cong) auto
  also have "\<dots> = r"
    using l by (intro nth_equalityI) (simp_all add: length_map_cells nth_map_cells)
  finally show ?thesis using None by simp
next
  case (Some j)
  then have j: "j < length labels" "labels ! j = c" using col_pos_SomeD by auto
  have "r[j := f (r ! j)] = map_cells (\<lambda>l x. if l = c then f x else x) labels r"
  proof (intro nth_equalityI)
    show "length (r[j := f (r ! j)]) = length (map_cells (\<lambda>l x. if l = c then f x else x) labels r)"
      using l by (simp add: length_map_cells)
  next
    fix k assume "k < length (r[j := f (r ! j)])"
    then have k: "k < length labels" using l by simp
    have "labels ! k = c \<longleftrightarrow> k = j"
      using d j k by (auto simp: nth_eq_iff_index_eq)
    then show "r[j := f (r ! j)] ! k = map_cells (\<lambda>l x. if l = c then f x else x) labels r ! k"
      using k l j by (auto simp: nth_map_cells nth_list_update)
  qed
  then show ?thesis using Some by simp
qed

lemma wf_frame_map_rows:
  assumes "wf_frame df" and "\<And>r. length r = length (columns df) \<Longrightarrow> length (g r) = length (columns df)"
  shows "wf_frame (map_rows g df)"
  using assms by (auto simp: wf_frame_def map_rows_def list_all_iff)

lemma wf_frame_filter:
  "wf_frame df \<Longrightarrow> wf_frame (df\<lparr>rows := filter P (rows df)\<rparr>)"
  by (auto simp: wf_frame_def list_all_iff)

text \<open>Assigning to a column the image of its own cells changes each row at that label.\<close>

lemma getitem_present:
  assumes "c \<in> set (columns df)"
  shows "getitem df c = Inr (map (\<lambda>r. lookup_cell (columns df) (snd r) c) (rows df))"
proof -
  obtain i where "col_pos c (columns df) = Some i" using col_pos_in_set[OF assms] by blast
  then show ?thesis by (simp add: getitem_def lookup_cell_def)
qed

lemma setitem_image:
  assumes w: "wf_frame df" and c: "c \<in> set (columns df)"
  shows "setitem df c (map (\<lambda>r. f (lookup_cell (columns df) (snd r) c)) (rows df))
         = map_rows (map_cells (\<lambda>l x. if l = c then f x else x) (columns df)) df"
proof -
  obtain i where i: "col_pos c (columns df) = Some i" using col_pos_in_set[OF c] by blast
  have z: "zip xs (map h xs) = map (\<lambda>x. (x, h x)) xs" for xs :: "(nat \<times> cell list) list" and h
    by (induction xs) auto
  have "map (\<lambda>(r, v). (fst r, (snd r)[i := v]))
          (zip (rows df) (map (\<lambda>r. f (lookup_cell (columns df) (snd r) c)) (rows df)))
        = map (\<lambda>r. (fst r, (snd r)[i := f (snd r ! i)])) (rows df)"
    unfolding z by (simp add: lookup_cell_def i)
  also have "\<dots> = map (\<lambda>r. (fst r, map_cells (\<lambda>l x. if l = c then f x else x) (columns df) (snd r)))
                    (rows df)"
  proof (rule map_cong[OF refl])
    fix r assume "r \<in> set (rows df)"
    then have l: "length (snd r) = length (columns df)"
      using w by (auto simp: wf_frame_def list_all_iff)
    have d: "distinct (columns df)" using w by (simp add: wf_frame_def)
    show "(fst r, (snd r)[i := f (snd r ! i)])
          = (fst r, map_cells (\<lambda>l x. if l = c then f x else x) (columns df) (snd r))"
      using update_as_map_cells[OF d l, where c = c and f = f] i by simp
  qed
  finally show ?thesis by (simp add: setitem_def i map_rows_def)
qed

lemma row_length:
  "wf_frame df \<Longrightarrow> r \<in> set (rows df) \<Longrightarrow> length (snd r) = length (columns df)"
  by (auto simp: wf_frame_def list_all_iff)

lemma lookup_map_cells:
  assumes "length r = length labels" and "c \<in> set labels"
  shows "lookup_cell labels (map_cells f labels r) c = f c (lookup_cell labels r c)"
proof -
  obtain j where j: "col_pos c labels = Some j" using col_pos_in_set[OF assms(2)] by blast
  then have "j < length labels" "labels ! j = c" using col_pos_SomeD by auto
  then show ?thesis using assms(1) by (simp add: lookup_cell_def j nth_map_cells)
qed

lemma map_cells_id: "length r = length labels \<Longrightarrow> map_cells (\<lambda>l x. x) labels r = r"
  by (intro nth_equalityI) (simp_all add: length_map_cells nth_map_cells)

lemma map_rows_cong:
  assumes "\<And>r. r \<in> set (rows df) \<Longrightarrow> g (snd r) = h (snd r)"
  shows "map_rows g df = map_rows h df"
  using assms by (simp add: map_rows_def)

lemma map_rows_comp: "map_rows g (map_rows h df) = map_rows (\<lambda>r. g (h r)) df"
  by (simp add: map_rows_def comp_def)

lemma columns_map_rows: "columns (map_rows g df) = columns df"
  by (simp add: map_rows_def)

lemma rows_map_rows: "rows (map_rows g df) = map (\<lambda>r. (fst r, g (snd r))) (rows df)"
  by (simp add: map_rows_def)

lemma wf_frame_map_cells:
  "wf_frame df \<Longrightarrow> wf_frame (map_rows (map_cells f (columns df)) df)"
  by (rule wf_frame_map_rows) (simp_all add: length_map_cells)

lemma map_rows_map_cells_comp:
  assumes "wf_frame df"
  shows "map_rows (map_cells f (columns df)) (map_rows (map_cells g (columns df)) df)
         = map_rows (map_cells (\<lambda>l x. f l (g l x)) (columns df)) df"
  unfolding map_rows_comp
  by (rule map_rows_cong) (simp add: map_cells_comp row_length[OF assms])

lemma map_rows_map_cells_cong:
  assumes "\<And>l x. l \<in> set (columns df) \<Longrightarrow> f l x = g l x"
  shows "map_rows (map_cells f (columns df)) df = map_rows (map_cells g (columns df)) df"
  by (rule map_rows_cong) (rule map_cells_cong, rule assms)

lemma to_numeric_idem: "to_numeric L (to_numeric L x) = to_numeric L x"
  by (cases x) (auto split: option.splits)

lemma setitem_to_numeric:
  assumes w: "wf_frame df" and c: "c \<in> set (columns df)" and g: "getitem df c = Inr vs"
  shows "setitem df c (map f vs)
         = map_rows (map_cells (\<lambda>l x. if l = c then f x else x) (columns df)) df"
proof -
  have "vs = map (\<lambda>r. lookup_cell (columns df) (snd r) c) (rows df)"
    using g getitem_present[OF c] by simp
  then have "map f vs = map (\<lambda>r. f (lookup_cell (columns df) (snd r) c)) (rows df)"
    by (simp add: comp_def)
  then show ?thesis using setitem_image[OF w c, of f] by simp
qed

lemma coerce_columns_map_rows:
  assumes "wf_frame df"
  shows "coerce_columns L cs df =
     Inr (map_rows (map_cells (\<lambda>l x. if l \<in> set cs then to_numeric L x else x) (columns df)) df)"
  using assms
proof (induction cs arbitrary: df)
  case Nil
  have "map_rows (map_cells (\<lambda>l x. x) (columns df)) df = map_rows (\<lambda>r. r) df"
    by (rule map_rows_cong) (simp add: map_cells_id row_length[OF Nil])
  also have "\<dots> = df" by (simp add: map_rows_def)
  finally show ?case by simp
next
  case (Cons c cs)
  show ?case
  proof (cases "c \<in> set (columns df)")
    case True
    let ?d = "map_rows (map_cells (\<lambda>l x. if l = c then to_numeric L x else x) (columns df)) df"
    obtain vs where vs: "getitem df c = Inr vs" using getitem_present[OF True] by blast
    have s: "setitem df c (map (to_numeric L) vs) = ?d"
      by (rule setitem_to_numeric[OF Cons.prems True vs])
    have wd: "wf_frame ?d" by (rule wf_frame_map_cells[OF Cons.prems])
    have cd: "columns ?d = columns df" by (rule columns_map_rows)
    have "coerce_columns L (c # cs) df = coerce_columns L cs ?d"
      using True vs s by simp
    also have "\<dots> = Inr (map_rows (map_cells (\<lambda>l x. if l \<in> set cs then to_numeric L x else x)
                                  (columns df)) ?d)"
      using Cons.IH[OF wd] by (simp only: cd)
    also have "map_rows (map_cells (\<lambda>l x. if l \<in> set cs then to_numeric L x else x) (columns df)) ?d
        = map_rows (map_cells (\<lambda>l x. if l \<in> set cs
                                 then to_numeric L (if l = c then to_numeric L x else x)
                                 else (if l = c then to_numeric L x else x)) (columns df)) df"
      by (rule map_rows_map_cells_comp[OF Cons.prems])
    also have "\<dots> = map_rows (map_cells (\<lambda>l x. if l \<in> set (c # cs) then to_numeric L x else x)
                            (columns df)) df"
      by (rule map_rows_map_cells_cong) (simp add: to_numeric_idem)
    finally show ?thesis .
  next
    case False
    have "coerce_columns L (c # cs) df = coerce_columns L cs df" using False by simp
    also have "\<dots> = Inr (map_rows (map_cells (\<lambda>l x. if l \<in> set cs then to_numeric L x else x)
                                  (columns df)) df)"
      by (rule Cons.IH[OF Cons.prems])
    also have "map_rows (map_cells (\<lambda>l x. if l \<in> set cs then to_numeric L x else x) (columns df)) df
        = map_rows (map_cells (\<lambda>l x. if l \<in> set (c # cs) then to_numeric L x else x)
                            (columns df)) df"
      by (rule map_rows_map_cells_cong) (use False in auto)
    finally show ?thesis .
  qed
qed

lemma argsort_props:
  assumes "argsort_ok f" and "list_all is_number ks"
  shows "mset (f ks) = mset [0 ..< length ks]"
    and "sorted_wrt key_le (map ((!) ks) (f ks))"
    and "set (f ks) = {0 ..< length ks}"
    and "length (f ks) = length ks"
proof -
  show m: "mset (f ks) = mset [0 ..< length ks]"
    and "sorted_wrt key_le (map ((!) ks) (f ks))"
    using assms by (simp_all add: argsort_ok_def)
  show "set (f ks) = {0 ..< length ks}"
    using m by (metis set_mset_mset set_upt)
  show "length (f ks) = length ks"
    using m by (metis size_mset length_upt diff_zero)
qed

lemma mset_take_permutation:
  assumes "mset p = mset [0 ..< length xs]"
  shows "mset (map ((!) xs) p) = mset xs"
proof -
  have "mset (map ((!) xs) p) = image_mset ((!) xs) (mset p)" by simp
  also have "\<dots> = image_mset ((!) xs) (mset [0 ..< length xs])" by (simp only: assms)
  also have "\<dots> = mset (map ((!) xs) [0 ..< length xs])" by simp
  also have "\<dots> = mset xs" by (simp only: map_nth)
  finally show ?thesis .
qed

lemma sort_values_numbers:
  assumes c: "c \<in> set (columns df)"
    and n: "list_all is_number (map (\<lambda>r. lookup_cell (columns df) (snd r) c) (rows df))"
    and ok: "argsort_ok (argsort L)"
  shows "sort_values L df c =
     Inr (df\<lparr>rows := map ((!) (rows df))
                    (argsort L (map (\<lambda>r. lookup_cell (columns df) (snd r) c) (rows df)))\<rparr>)"
proof -
  let ?ks = "map (\<lambda>r. lookup_cell (columns df) (snd r) c) (rows df)"
  have g: "getitem df c = Inr ?ks" by (rule getitem_present[OF c])
  have nn: "\<forall>i < length ?ks. ?ks ! i \<noteq> NaN"
  proof (intro allI impI)
    fix i assume "i < length ?ks"
    then have "?ks ! i \<in> set ?ks" by (rule nth_mem)
    then have "is_number (?ks ! i)" using n unfolding list_all_iff by blast
    then show "?ks ! i \<noteq> NaN" by auto
  qed
  have a: "filter (\<lambda>i. ?ks ! i \<noteq> NaN) [0 ..< length ?ks] = [0 ..< length ?ks]"
    using nn by (simp add: filter_id_conv)
  have b: "filter (\<lambda>i. ?ks ! i = NaN) [0 ..< length ?ks] = []"
    using nn by (simp add: filter_empty_conv)
  have k: "map ((!) ?ks) [0 ..< length ?ks] = ?ks" by (rule map_nth)
  have "set (argsort L ?ks) = {0 ..< length ?ks}" by (rule argsort_props(3)[OF ok n])
  then have "\<forall>p \<in> set (argsort L ?ks). [0 ..< length ?ks] ! p = p" by auto
  then have i: "map ((!) [0 ..< length ?ks]) (argsort L ?ks) = argsort L ?ks"
    by (simp add: map_idI)
  show ?thesis
    unfolding sort_values_def g sum.case Let_def a b k i by simp
qed

lemma cast_int_is_integer: "is_finite x \<Longrightarrow> is_integer (cast_int L x)"
  by (cases x rule: is_finite.cases) auto

lemma cast_int_is_number: "is_finite x \<Longrightarrow> is_number (cast_int L x)"
  by (cases x rule: is_finite.cases) auto

lemma spec_clean_cell_comp:
  "(if l \<in> set metrics then to_numeric L
        (if l = Str ''Year'' then cast_int L (if l = Str ''Year'' then to_numeric L x else x)
         else (if l = Str ''Year'' then to_numeric L x else x))
    else (if l = Str ''Year'' then cast_int L (if l = Str ''Year'' then to_numeric L x else x)
         else (if l = Str ''Year'' then to_numeric L x else x)))
   = spec_clean_cell L l x"
  by (auto simp: spec_clean_cell_def metrics_def)

lemma dropna_present:
  assumes "c \<in> set (columns df)"
  shows "dropna_subset df c =
     Inr (df\<lparr>rows := filter (\<lambda>r. lookup_cell (columns df) (snd r) c \<noteq> NaN) (rows df)\<rparr>)"
proof -
  obtain i where "col_pos c (columns df) = Some i" using col_pos_in_set[OF assms] by blast
  then show ?thesis by (simp add: dropna_subset_def lookup_cell_def)
qed

lemma map_rows_filter:
  assumes "\<And>r. r \<in> set (rows df) \<Longrightarrow> P (fst r, g (snd r)) = Q r"
  shows "(map_rows g df)\<lparr>rows := filter P (rows (map_rows g df))\<rparr>
         = map_rows g (df\<lparr>rows := filter Q (rows df)\<rparr>)"
proof -
  have "filter P (map (\<lambda>r. (fst r, g (snd r))) (rows df))
        = map (\<lambda>r. (fst r, g (snd r))) (filter Q (rows df))"
    unfolding filter_map comp_def
    by (rule arg_cong[where f = "map _"], rule filter_cong) (simp_all add: assms)
  then show ?thesis by (simp add: map_rows_def)
qed

text \<open>
  The cleaner, in one equation: the rows whose Year parses are kept, each is cleaned cell
  by cell, the cleaned rows are taken in the order of the indexer that the sorting
  algorithm returns for their Years, and numbered from zero.  It raises exactly when a
  kept Year is not finite.
\<close>

lemma clean_and_sort_result:
  assumes w: "wf_frame df" and y: "Str ''Year'' \<in> set (columns df)"
    and ok: "argsort_ok (argsort L)"
  defines "kept \<equiv> filter (\<lambda>r. to_numeric L (lookup_cell (columns df) (snd r) (Str ''Year''))
                               \<noteq> NaN) (rows df)"
  defines "cleaned \<equiv> map (\<lambda>r. (fst r, spec_clean_row L (columns df) (snd r))) kept"
  defines "keys \<equiv> map (\<lambda>r. lookup_cell (columns df) (snd r) (Str ''Year'')) cleaned"
  shows "clean_and_sort L df =
     (if list_all (\<lambda>r. is_finite (to_numeric L (lookup_cell (columns df) (snd r) (Str ''Year''))))
           kept
      then Inr \<lparr>columns = columns df,
                rows = zip [0 ..< length kept] (map (\<lambda>k. snd (cleaned ! k)) (argsort L keys))\<rparr>
      else Inl IntCastingNaNError)"
proof -
  let ?Y = "Str ''Year''"
  let ?cs = "columns df"
  let ?look = "\<lambda>r. lookup_cell ?cs (snd r) ?Y"
  let ?f1 = "\<lambda>l x. if l = ?Y then to_numeric L x else x"
  let ?f2 = "\<lambda>l x. if l = ?Y then cast_int L x else x"
  let ?f3 = "\<lambda>l x. if l \<in> set metrics then to_numeric L x else x"
  let ?K = "df\<lparr>rows := kept\<rparr>"
  let ?d1 = "map_rows (map_cells ?f1 ?cs) df"
  let ?d2 = "map_rows (map_cells ?f1 ?cs) ?K"
  let ?d3 = "map_rows (map_cells (\<lambda>l x. ?f2 l (?f1 l x)) ?cs) ?K"
  let ?d4 = "df\<lparr>rows := cleaned\<rparr>"
  have wK: "wf_frame ?K" unfolding kept_def by (rule wf_frame_filter[OF w])
  have cK: "columns ?K = ?cs" by simp
  have rK: "rows ?K = kept" by simp
  have rl: "\<And>r. r \<in> set kept \<Longrightarrow> length (snd r) = length ?cs"
    using row_length[OF wK] by simp
  have s1: "getitem df ?Y = Inr (map ?look (rows df))" by (rule getitem_present[OF y])
  have s2: "setitem df ?Y (map (to_numeric L) (map ?look (rows df))) = ?d1"
    by (rule setitem_to_numeric[OF w y s1])
  have y1: "?Y \<in> set (columns ?d1)" using y by (simp add: columns_map_rows)
  have s3: "dropna_subset ?d1 ?Y = Inr ?d2"
  proof -
    have "dropna_subset ?d1 ?Y =
        Inr (?d1\<lparr>rows := filter (\<lambda>r. lookup_cell ?cs (snd r) ?Y \<noteq> NaN) (rows ?d1)\<rparr>)"
      using dropna_present[OF y1] by (simp only: columns_map_rows)
    also have "?d1\<lparr>rows := filter (\<lambda>r. lookup_cell ?cs (snd r) ?Y \<noteq> NaN) (rows ?d1)\<rparr>
        = map_rows (map_cells ?f1 ?cs)
            (df\<lparr>rows := filter (\<lambda>r. to_numeric L (?look r) \<noteq> NaN) (rows df)\<rparr>)"
      by (rule map_rows_filter) (simp add: lookup_map_cells[OF row_length[OF w] y])
    finally show ?thesis unfolding kept_def .
  qed
  have wd2: "wf_frame ?d2" using wf_frame_map_cells[OF wK] by (simp only: cK)
  have y2: "?Y \<in> set (columns ?d2)" using y by (simp add: columns_map_rows)
  have s4: "getitem ?d2 ?Y = Inr (map (\<lambda>r. to_numeric L (?look r)) kept)"
  proof -
    have "getitem ?d2 ?Y = Inr (map (\<lambda>r. lookup_cell ?cs (snd r) ?Y) (rows ?d2))"
      using getitem_present[OF y2] by (simp only: columns_map_rows cK)
    also have "map (\<lambda>r. lookup_cell ?cs (snd r) ?Y) (rows ?d2)
        = map (\<lambda>r. to_numeric L (?look r)) kept"
      unfolding rows_map_rows rK map_map comp_def
      by (rule map_cong[OF refl])
        (simp add: lookup_map_cells[OF rl y])
    finally show ?thesis .
  qed
  have fin_iff: "list_all is_finite (map (\<lambda>r. to_numeric L (?look r)) kept)
       \<longleftrightarrow> list_all (\<lambda>r. is_finite (to_numeric L (?look r))) kept"
    by (simp add: list_all_iff)
  show ?thesis
  proof (cases "list_all (\<lambda>r. is_finite (to_numeric L (?look r))) kept")
    case False
    then have "astype_int L (map (\<lambda>r. to_numeric L (?look r)) kept) = Inl IntCastingNaNError"
      unfolding astype_int_def fin_iff by simp
    then show ?thesis
      using False by (simp only: clean_and_sort_def s1 sum.case s2 s3 s4 if_False)
  next
    case True
    then have a: "astype_int L (map (\<lambda>r. to_numeric L (?look r)) kept)
        = Inr (map (cast_int L) (map (\<lambda>r. to_numeric L (?look r)) kept))"
      unfolding astype_int_def fin_iff by simp
    have s6: "setitem ?d2 ?Y (map (cast_int L) (map (\<lambda>r. to_numeric L (?look r)) kept)) = ?d3"
    proof -
      have "setitem ?d2 ?Y (map (cast_int L) (map (\<lambda>r. to_numeric L (?look r)) kept))
          = map_rows (map_cells ?f2 (columns ?d2)) ?d2"
        by (rule setitem_to_numeric[OF wd2 y2 s4])
      also have "\<dots> = map_rows (map_cells ?f2 (columns ?K)) (map_rows (map_cells ?f1 (columns ?K)) ?K)"
        by (simp only: columns_map_rows cK)
      also have "\<dots> = map_rows (map_cells (\<lambda>l x. ?f2 l (?f1 l x)) (columns ?K)) ?K"
        by (rule map_rows_map_cells_comp[OF wK])
      finally show ?thesis by (simp only: cK)
    qed
    have wd3: "wf_frame ?d3" using wf_frame_map_cells[OF wK] by (simp only: cK)
    have s7: "coerce_columns L metrics ?d3 = Inr ?d4"
    proof -
      have "coerce_columns L metrics ?d3 = Inr (map_rows (map_cells ?f3 (columns ?d3)) ?d3)"
        by (rule coerce_columns_map_rows[OF wd3])
      also have "map_rows (map_cells ?f3 (columns ?d3)) ?d3
          = map_rows (map_cells ?f3 (columns ?K))
              (map_rows (map_cells (\<lambda>l x. ?f2 l (?f1 l x)) (columns ?K)) ?K)"
        by (simp only: columns_map_rows cK)
      also have "\<dots> = map_rows (map_cells (\<lambda>l x. ?f3 l (?f2 l (?f1 l x))) (columns ?K)) ?K"
        by (rule map_rows_map_cells_comp[OF wK])
      also have "\<dots> = map_rows (map_cells (spec_clean_cell L) (columns ?K)) ?K"
        by (rule map_rows_map_cells_cong) (rule spec_clean_cell_comp)
      also have "\<dots> = ?d4"
        by (simp add: map_rows_def cleaned_def spec_clean_row_map_cells)
      finally show ?thesis .
    qed
    have y4: "?Y \<in> set (columns ?d4)" using y by simp
    have k4: "map (\<lambda>r. lookup_cell (columns ?d4) (snd r) ?Y) (rows ?d4) = keys"
      by (simp add: keys_def)
    have kn: "list_all is_number keys"
    proof -
      have "\<forall>r \<in> set kept. is_number (lookup_cell ?cs (spec_clean_row L ?cs (snd r)) ?Y)"
      proof
        fix r assume r: "r \<in> set kept"
        then have f: "is_finite (to_numeric L (?look r))"
          using True by (simp add: list_all_iff)
        have "lookup_cell ?cs (spec_clean_row L ?cs (snd r)) ?Y
              = spec_clean_cell L ?Y (?look r)"
          unfolding spec_clean_row_map_cells
          using lookup_map_cells[OF rl y, of r] r by simp
        also have "\<dots> = cast_int L (to_numeric L (?look r))"
          by (simp add: spec_clean_cell_def)
        finally show "is_number (lookup_cell ?cs (spec_clean_row L ?cs (snd r)) ?Y)"
          using cast_int_is_number[OF f] by simp
      qed
      then show ?thesis by (simp add: keys_def cleaned_def list_all_iff)
    qed
    have s8: "sort_values L ?d4 ?Y = Inr (?d4\<lparr>rows := map ((!) cleaned) (argsort L keys)\<rparr>)"
      using sort_values_numbers[OF y4 _ ok] kn unfolding k4 by simp
    have len: "length (argsort L keys) = length kept"
      using argsort_props(4)[OF ok kn] by (simp add: keys_def cleaned_def)
    have s9: "reset_index_drop (?d4\<lparr>rows := map ((!) cleaned) (argsort L keys)\<rparr>)
        = \<lparr>columns = ?cs,
           rows = zip [0 ..< length kept] (map (\<lambda>k. snd (cleaned ! k)) (argsort L keys))\<rparr>"
      by (simp add: reset_index_drop_def len comp_def)
    show ?thesis
      using True by (simp only: clean_and_sort_def s1 sum.case s2 s3 s4 a s6 s7 s8 s9 if_True)
  qed
qed

lemma clean_and_sort_without_year:
  assumes "Str ''Year'' \<notin> set (columns df)"
  shows "clean_and_sort L df = Inl (KeyError [Str ''Year''])"
proof -
  have "col_pos (Str ''Year'') (columns df) = None"
    using assms by (simp add: col_pos_None_iff)
  then show ?thesis by (simp add: clean_and_sort_def getitem_def)
qed

lemma to_numeric_finite:
  assumes "to_numeric L x \<noteq> NaN" and "to_numeric L x \<notin> {Num PInf, Num NInf}"
  shows "is_finite (to_numeric L x)"
proof (cases "to_numeric L x")
  case NaN
  then show ?thesis using assms by simp
next
  case (Num n)
  then show ?thesis using assms by (cases n) auto
next
  case (Str s)
  then show ?thesis by (cases x) (auto split: option.splits)
qed

text \<open>What a returned table consists of.\<close>

lemma clean_and_sort_returned:
  assumes w: "wf_frame df" and ok: "argsort_ok (argsort L)"
    and r: "clean_and_sort L df = Inr out"
  defines "kept \<equiv> filter (\<lambda>r. to_numeric L (lookup_cell (columns df) (snd r) (Str ''Year''))
                               \<noteq> NaN) (rows df)"
  defines "cleaned \<equiv> map (\<lambda>r. (fst r, spec_clean_row L (columns df) (snd r))) kept"
  defines "keys \<equiv> map (\<lambda>r. lookup_cell (columns df) (snd r) (Str ''Year'')) cleaned"
  shows "Str ''Year'' \<in> set (columns df)"
    and "list_all (\<lambda>r. is_finite (to_numeric L (lookup_cell (columns df) (snd r) (Str ''Year''))))
           kept"
    and "columns out = columns df"
    and "map fst (rows out) = [0 ..< length kept]"
    and "map snd (rows out) = map ((!) (map snd cleaned)) (argsort L keys)"
    and "getitem out (Str ''Year'') = Inr (map ((!) keys) (argsort L keys))"
    and "length (rows out) = length kept"
proof -
  show y: "Str ''Year'' \<in> set (columns df)"
    using r clean_and_sort_without_year[of df L] by auto
  note e = clean_and_sort_result[OF w y ok, folded kept_def, folded cleaned_def, folded keys_def]
  show fin: "list_all (\<lambda>r. is_finite (to_numeric L (lookup_cell (columns df) (snd r) (Str ''Year''))))
           kept"
    using r unfolding e by (auto split: if_splits)
  then have out: "out = \<lparr>columns = columns df,
       rows = zip [0 ..< length kept] (map (\<lambda>k. snd (cleaned ! k)) (argsort L keys))\<rparr>"
    using r unfolding e by simp
  show c: "columns out = columns df" by (simp add: out)
  have kn: "list_all is_number keys"
  proof -
    have "\<forall>r \<in> set kept. is_number (lookup_cell (columns df) (spec_clean_row L (columns df) (snd r))
                                    (Str ''Year''))"
    proof
      fix r assume r: "r \<in> set kept"
      then have f: "is_finite (to_numeric L (lookup_cell (columns df) (snd r) (Str ''Year'')))"
        using fin by (simp add: list_all_iff)
      have "r \<in> set (rows df)" using r by (simp add: kept_def)
      then have "lookup_cell (columns df) (spec_clean_row L (columns df) (snd r)) (Str ''Year'')
            = spec_clean_cell L (Str ''Year'') (lookup_cell (columns df) (snd r) (Str ''Year''))"
        unfolding spec_clean_row_map_cells
        using lookup_map_cells[OF row_length[OF w] y, of r] by simp
      then show "is_number (lookup_cell (columns df) (spec_clean_row L (columns df) (snd r))
                              (Str ''Year''))"
        using cast_int_is_number[OF f] by (simp add: spec_clean_cell_def)
    qed
    then show ?thesis by (simp add: keys_def cleaned_def list_all_iff)
  qed
  note ap = argsort_props[OF ok kn]
  have lk: "length keys = length kept" "length cleaned = length kept"
    by (simp_all add: keys_def cleaned_def)
  have len: "length (argsort L keys) = length kept" using ap(4) lk by simp
  show "map fst (rows out) = [0 ..< length kept]"
    unfolding out using len by simp
  show "length (rows out) = length kept"
    unfolding out using len by simp
  have bound: "\<forall>k \<in> set (argsort L keys). k < length kept"
    using ap(3) lk by auto
  have "map snd (rows out) = map (\<lambda>k. snd (cleaned ! k)) (argsort L keys)"
    unfolding out using len by simp
  also have "\<dots> = map ((!) (map snd cleaned)) (argsort L keys)"
    by (rule map_cong[OF refl]) (use bound lk in simp)
  finally show ms: "map snd (rows out) = map ((!) (map snd cleaned)) (argsort L keys)" .
  have "getitem out (Str ''Year'')
        = Inr (map (\<lambda>r. lookup_cell (columns out) (snd r) (Str ''Year'')) (rows out))"
    by (rule getitem_present) (simp add: c y)
  also have "map (\<lambda>r. lookup_cell (columns out) (snd r) (Str ''Year'')) (rows out)
        = map (\<lambda>r. lookup_cell (columns df) r (Str ''Year'')) (map snd (rows out))"
    by (simp add: c comp_def)
  also have "\<dots> = map ((!) keys) (argsort L keys)"
    unfolding ms map_map comp_def
    by (rule map_cong[OF refl]) (use bound lk in \<open>simp add: keys_def\<close>)
  finally show "getitem out (Str ''Year'') = Inr (map ((!) keys) (argsort L keys))" .
qed

lemma kept_rows_as_spec:
  "map snd (filter (\<lambda>r. to_numeric L (lookup_cell cs (snd r) (Str ''Year'')) \<noteq> NaN) rs)
   = filter (spec_year_parses L cs) (map snd rs)"
  by (induction rs) (auto simp: spec_year_parses_def)

lemma cleaned_year_is_integer:
  assumes w: "wf_frame df" and y: "Str ''Year'' \<in> set (columns df)"
    and r: "r \<in> set (rows df)"
    and f: "is_finite (to_numeric L (lookup_cell (columns df) (snd r) (Str ''Year'')))"
  shows "is_integer (lookup_cell (columns df) (spec_clean_row L (columns df) (snd r)) (Str ''Year''))"
proof -
  have "lookup_cell (columns df) (spec_clean_row L (columns df) (snd r)) (Str ''Year'')
        = spec_clean_cell L (Str ''Year'') (lookup_cell (columns df) (snd r) (Str ''Year''))"
    unfolding spec_clean_row_map_cells
    using lookup_map_cells[OF row_length[OF w r] y] by simp
  then show ?thesis using cast_int_is_integer[OF f] by (simp add: spec_clean_cell_def)
qed

text \<open>
  The cleaner returns on every entity table that has a Year column and no infinite
  Year.  When it returns, the columns are those of the input, and the rows of the output
  are, with their multiplicities, exactly the rows of the input whose Year parses as a
  number, each with its Year parsed and cast to an integer, each cell of a metric column
  parsed (missing when it is not a number) and every other cell unchanged.  Every Year of
  the output is an integer.
\<close>

lemma cleaner_rows_and_cells:
  assumes "wf_frame df" and "argsort_ok (argsort L)"
  shows "(Str ''Year'' \<in> set (columns df)
          \<and> list_all (\<lambda>r. to_numeric L (lookup_cell (columns df) (snd r) (Str ''Year''))
                           \<notin> {Num PInf, Num NInf}) (rows df)
          \<longrightarrow> (\<exists>out. clean_and_sort L df = Inr out))
       \<and> (\<forall>out. clean_and_sort L df = Inr out \<longrightarrow>
             columns out = columns df
           \<and> mset (map snd (rows out))
               = mset (map (spec_clean_row L (columns df))
                        (filter (spec_year_parses L (columns df)) (map snd (rows df))))
           \<and> list_all (\<lambda>r. is_integer (lookup_cell (columns out) (snd r) (Str ''Year'')))
               (rows out))"
proof (intro conjI allI impI)
  assume a: "Str ''Year'' \<in> set (columns df)
          \<and> list_all (\<lambda>r. to_numeric L (lookup_cell (columns df) (snd r) (Str ''Year''))
                           \<notin> {Num PInf, Num NInf}) (rows df)"
  let ?kept = "filter (\<lambda>r. to_numeric L (lookup_cell (columns df) (snd r) (Str ''Year'')) \<noteq> NaN)
                 (rows df)"
  have "\<forall>r \<in> set ?kept. is_finite (to_numeric L (lookup_cell (columns df) (snd r) (Str ''Year'')))"
    using a to_numeric_finite by (auto simp: list_all_iff)
  then have "list_all (\<lambda>r. is_finite (to_numeric L (lookup_cell (columns df) (snd r) (Str ''Year''))))
               ?kept"
    by (simp only: list_all_iff)
  then show "\<exists>out. clean_and_sort L df = Inr out"
    using clean_and_sort_result[OF assms(1) _ assms(2), of ] a by simp
next
  fix out assume r: "clean_and_sort L df = Inr out"
  let ?kept = "filter (\<lambda>r. to_numeric L (lookup_cell (columns df) (snd r) (Str ''Year'')) \<noteq> NaN)
                 (rows df)"
  let ?cleaned = "map (\<lambda>r. (fst r, spec_clean_row L (columns df) (snd r))) ?kept"
  let ?keys = "map (\<lambda>r. lookup_cell (columns df) (snd r) (Str ''Year'')) ?cleaned"
  note p = clean_and_sort_returned[OF assms r]
  show "columns out = columns df" by (rule p(3))
  have kn: "list_all is_number ?keys"
  proof -
    have "\<forall>r \<in> set ?kept. is_number (lookup_cell (columns df)
            (spec_clean_row L (columns df) (snd r)) (Str ''Year''))"
    proof
      fix r assume r: "r \<in> set ?kept"
      then have "is_finite (to_numeric L (lookup_cell (columns df) (snd r) (Str ''Year'')))"
        using p(2) unfolding list_all_iff by blast
      moreover have "r \<in> set (rows df)" using r by simp
      ultimately have "is_integer (lookup_cell (columns df)
            (spec_clean_row L (columns df) (snd r)) (Str ''Year''))"
        using cleaned_year_is_integer[OF assms(1) p(1)] by blast
      then show "is_number (lookup_cell (columns df)
            (spec_clean_row L (columns df) (snd r)) (Str ''Year''))"
        by (cases "lookup_cell (columns df) (spec_clean_row L (columns df) (snd r)) (Str ''Year'')")
          auto
    qed
    then show ?thesis by (simp add: list_all_iff)
  qed
  have m: "mset (argsort L ?keys) = mset [0 ..< length (map snd ?cleaned)]"
    using argsort_props(1)[OF assms(2) kn] by simp
  have ms: "mset (map snd (rows out)) = mset (map snd ?cleaned)"
    unfolding p(5) by (rule mset_take_permutation[OF m])
  note ms
  also have "map snd ?cleaned = map (spec_clean_row L (columns df)) (map snd ?kept)"
    by (simp add: comp_def)
  also have "map snd ?kept = filter (spec_year_parses L (columns df)) (map snd (rows df))"
    by (rule kept_rows_as_spec)
  finally show "mset (map snd (rows out))
               = mset (map (spec_clean_row L (columns df))
                        (filter (spec_year_parses L (columns df)) (map snd (rows df))))" .
  have "\<forall>x \<in> set (map snd (rows out)). is_integer (lookup_cell (columns df) x (Str ''Year''))"
  proof
    fix x assume "x \<in> set (map snd (rows out))"
    then have "x \<in># mset (map snd (rows out))" by (simp only: set_mset_mset)
    then have "x \<in># mset (map snd ?cleaned)" by (simp only: ms)
    then have "x \<in> set (map snd ?cleaned)" by (simp only: set_mset_mset)
    then obtain r where rr: "r \<in> set ?kept" "x = spec_clean_row L (columns df) (snd r)"
      by auto
    then have "is_finite (to_numeric L (lookup_cell (columns df) (snd r) (Str ''Year'')))"
      using p(2) unfolding list_all_iff by blast
    moreover have "r \<in> set (rows df)" using rr by simp
    ultimately show "is_integer (lookup_cell (columns df) x (Str ''Year''))"
      using cleaned_year_is_integer[OF assms(1) p(1)] rr(2) by blast
  qed
  then show "list_all (\<lambda>r. is_integer (lookup_cell (columns out) (snd r) (Str ''Year''))) (rows out)"
    by (simp add: list_all_iff p(3))
qed

lemma cleaner_rows_and_cells_example:
  "wf_frame table_malformed \<and> argsort_ok (argsort sample_lib)
   \<and> Str ''Year'' \<in> set (columns table_malformed)
   \<and> list_all (\<lambda>r. to_numeric sample_lib (lookup_cell (columns table_malformed) (snd r) (Str ''Year''))
                    \<notin> {Num PInf, Num NInf}) (rows table_malformed)
   \<and> (\<exists>out. clean_and_sort sample_lib table_malformed = Inr out
         \<and> columns out = [Str ''Year'', Str ''Yield'']
         \<and> mset (map snd (rows out))
             = {#[Num (Fin 1962), NaN], [Num (Fin 1961), Num (Fin 300)]#}
         \<and> list_all (\<lambda>r. is_integer (lookup_cell (columns out) (snd r) (Str ''Year'')))
             (rows out))"
proof -
  have w: "wf_frame table_malformed"
    by (simp add: wf_frame_def table_malformed_def)
  have ok: "argsort_ok (argsort sample_lib)"
    by (simp add: sample_lib_def argsort_ok_stable)
  have y: "Str ''Year'' \<in> set (columns table_malformed)"
    by (simp add: table_malformed_def)
  have f: "list_all (\<lambda>r. to_numeric sample_lib
                 (lookup_cell (columns table_malformed) (snd r) (Str ''Year''))
                    \<notin> {Num PInf, Num NInf}) (rows table_malformed)"
    by (simp add: table_malformed_def lookup_cell_def sample_lib_def parse_decimal_def)
  note t = cleaner_rows_and_cells[OF w ok]
  from t y f obtain out where o: "clean_and_sort sample_lib table_malformed = Inr out"
    by blast
  with t have p: "columns out = columns table_malformed"
    "mset (map snd (rows out))
       = mset (map (spec_clean_row sample_lib (columns table_malformed))
                (filter (spec_year_parses sample_lib (columns table_malformed))
                   (map snd (rows table_malformed))))"
    "list_all (\<lambda>r. is_integer (lookup_cell (columns out) (snd r) (Str ''Year''))) (rows out)"
    by blast+
  have c: "columns out = [Str ''Year'', Str ''Yield'']"
    using p(1) by (simp add: table_malformed_def)
  have m: "mset (map snd (rows out))
             = {#[Num (Fin 1962), NaN], [Num (Fin 1961), Num (Fin 300)]#}"
    unfolding p(2)
    by (simp add: table_malformed_def spec_clean_row_def spec_clean_cell_def
        spec_year_parses_def lookup_cell_def metrics_def sample_lib_def parse_decimal_def
        trunc_def)
  have "\<exists>out. clean_and_sort sample_lib table_malformed = Inr out
         \<and> columns out = [Str ''Year'', Str ''Yield'']
         \<and> mset (map snd (rows out))
             = {#[Num (Fin 1962), NaN], [Num (Fin 1961), Num (Fin 300)]#}
         \<and> list_all (\<lambda>r. is_integer (lookup_cell (columns out) (snd r) (Str ''Year'')))
             (rows out)"
    by (rule exI[of _ out], intro conjI, rule o, rule c, rule m, rule p(3))
  then show ?thesis using w ok y f by (simp only: simp_thms)
qed

lemma floor_rat_numeral: "\<lfloor>numeral a / numeral b :: rat\<rfloor> = numeral a div numeral b"
  using floor_divide_of_int_eq[of "numeral a" "numeral b", where ?'a = rat] by simp

subsection \<open>The default sorting algorithm on eighteen tied keys\<close>

text \<open>
  The routine on eighteen equal keys, step by step.  The range of eighteen positions is
  partitioned once: no key is below or above the pivot, so each scan stops after one step
  and the loop swaps the positions 1 and 15, 2 and 14, ..., 7 and 9 before the scans meet
  at 8.  The two parts, of eight and nine positions, are sorted by insertion, which moves
  nothing.
\<close>

lemma tied_keys_nth: "i < 18 \<Longrightarrow> tied_keys ! i = Num (Fin 1961)"
  unfolding tied_keys_def by (simp add: nth_Cons')

lemma partition_tied_keys:
  "quicksort_partition tied_keys [0 ..< 18] 0 17 = ([0, 15, 14, 13, 12, 11, 10, 9, 8, 7, 6, 5, 4, 3, 2, 1, 16, 17], 8)"
  by (simp add: quicksort_partition_def partition_loop.simps scan_up.simps scan_down.simps
      key_less_def intp_swap_def tied_keys_nth Let_def upt_rec)

lemma npy_get_msb_18: "npy_get_msb 18 = 4"
  by (simp add: npy_get_msb.simps)

lemma aquicksort_while_tied_keys:
  "aquicksort_while tied_keys [0 ..< 18] 0 17 [] 8 = ([0, 15, 14, 13, 12, 11, 10, 9, 8, 7, 6, 5, 4, 3, 2, 1, 16, 17], 0, 7, [(9, 17, 7)])"
  by (simp add: aquicksort_while.simps partition_tied_keys)

lemma insertion_sort_tied_keys_left:
  "insertion_sort tied_keys [0, 15, 14, 13, 12, 11, 10, 9, 8, 7, 6, 5, 4, 3, 2, 1, 16, 17] 0 7 1 = [0, 15, 14, 13, 12, 11, 10, 9, 8, 7, 6, 5, 4, 3, 2, 1, 16, 17]"
  by (simp add: insertion_sort.simps insert_shift.simps key_less_def tied_keys_nth Let_def)

lemma aquicksort_while_tied_keys_right:
  "aquicksort_while tied_keys [0, 15, 14, 13, 12, 11, 10, 9, 8, 7, 6, 5, 4, 3, 2, 1, 16, 17] 9 17 [] 7 = ([0, 15, 14, 13, 12, 11, 10, 9, 8, 7, 6, 5, 4, 3, 2, 1, 16, 17], 9, 17, [])"
  by (simp add: aquicksort_while.simps)

lemma insertion_sort_tied_keys_right:
  "insertion_sort tied_keys [0, 15, 14, 13, 12, 11, 10, 9, 8, 7, 6, 5, 4, 3, 2, 1, 16, 17] 9 17 10 = [0, 15, 14, 13, 12, 11, 10, 9, 8, 7, 6, 5, 4, 3, 2, 1, 16, 17]"
  by (simp add: insertion_sort.simps insert_shift.simps key_less_def tied_keys_nth Let_def)

lemma numpy_argsort_tied_keys: "numpy_argsort tied_keys = [0, 15, 14, 13, 12, 11, 10, 9, 8, 7, 6, 5, 4, 3, 2, 1, 16, 17]"
proof -
  have l: "length tied_keys = 18" by (simp add: tied_keys_def)
  show ?thesis
    unfolding numpy_argsort_def aquicksort_def l
    by (simp add: npy_get_msb_18 aquicksort_loop.simps aquicksort_while_tied_keys
        insertion_sort_tied_keys_left[simplified] aquicksort_while_tied_keys_right[simplified]
        insertion_sort_tied_keys_right[simplified])
qed

text \<open>
  On a table of two rows with tied Years the routine keeps the order of the rows: a
  range of at most seventeen positions is sorted by insertion alone.
\<close>

lemma numpy_sort_keeps_two_ties:
  "clean_and_sort numpy_lib table_tied_years =
     Inr \<lparr>columns = [Str ''Year'', Str ''Yield''],
          rows = [(0, [Num (Fin 1961), Num (Fin 1)]), (1, [Num (Fin 1961), Num (Fin 2)])]\<rparr>"
  by (simp add: table_tied_years_def numpy_lib_def sample_lib_def numpy_argsort_def
      aquicksort_def aquicksort_loop.simps aquicksort_while.simps insertion_sort.simps
      insert_shift.simps key_less_def npy_get_msb.simps
      cleaner_defs frame_ops floor_rat_numeral Let_def upt_rec)

text \<open>
  C6, as stated, at an input: a table of eighteen rows whose Years, from 1961 to 1961.85,
  are all cast to 1961, with the Yields 1 to 18 in the order of the rows.  The source
  calls \<^verbatim>\<open>sort_values\<close> without \<^verbatim>\<open>kind\<close>, so the sort is the default quicksort, which is
  not stable: the eighteen rows tie, and the cleaner returns the rows 2 to 16 in the
  order opposite to their prior order (the row with the Yield 16 comes second, the row
  with the Yield 2 comes sixteenth).
\<close>

theorem cleaner_sort_reorders_ties:
  "map (\<lambda>r. snd r ! 1) (rows table_eighteen_ties) = [Num (Fin 1), Num (Fin 2), Num (Fin 3), Num (Fin 4), Num (Fin 5), Num (Fin 6), Num (Fin 7), Num (Fin 8), Num (Fin 9), Num (Fin 10), Num (Fin 11), Num (Fin 12), Num (Fin 13), Num (Fin 14), Num (Fin 15), Num (Fin 16), Num (Fin 17), Num (Fin 18)]
   \<and> clean_and_sort numpy_lib table_eighteen_ties =
       Inr \<lparr>columns = [Str ''Year'', Str ''Yield''],
            rows = [(0, [Num (Fin 1961), Num (Fin 1)]),
                    (1, [Num (Fin 1961), Num (Fin 16)]),
                    (2, [Num (Fin 1961), Num (Fin 15)]),
                    (3, [Num (Fin 1961), Num (Fin 14)]),
                    (4, [Num (Fin 1961), Num (Fin 13)]),
                    (5, [Num (Fin 1961), Num (Fin 12)]),
                    (6, [Num (Fin 1961), Num (Fin 11)]),
                    (7, [Num (Fin 1961), Num (Fin 10)]),
                    (8, [Num (Fin 1961), Num (Fin 9)]),
                    (9, [Num (Fin 1961), Num (Fin 8)]),
                    (10, [Num (Fin 1961), Num (Fin 7)]),
                    (11, [Num (Fin 1961), Num (Fin 6)]),
                    (12, [Num (Fin 1961), Num (Fin 5)]),
                    (13, [Num (Fin 1961), Num (Fin 4)]),
                    (14, [Num (Fin 1961), Num (Fin 3)]),
                    (15, [Num (Fin 1961), Num (Fin 2)]),
                    (16, [Num (Fin 1961), Num (Fin 17)]),
                    (17, [Num (Fin 1961), Num (Fin 18)])]\<rparr>"
  by (simp add: table_eighteen_ties_def numpy_lib_def sample_lib_def
      numpy_argsort_tied_keys[unfolded tied_keys_def]
      cleaner_defs frame_ops floor_rat_numeral Let_def upt_rec)

text \<open>
  C6, amended.  When the cleaner returns, the Years of its output are integers in
  ascending order, the rows of the output are the cleaned surviving rows rearranged, and
  the rows are numbered 0, 1, 2, ... in their new order.  The order among rows whose
  Years tie is the one of the default sorting algorithm, which need not be the prior
  order.
\<close>

theorem cleaner_sorts_and_renumbers:
  assumes "wf_frame df" and "argsort_ok (argsort L)"
    and "clean_and_sort L df = Inr out"
  shows "(\<exists>ys. getitem out (Str ''Year'') = Inr ys \<and> list_all is_integer ys
               \<and> sorted (map year_int ys))
       \<and> mset (map snd (rows out))
           = mset (map (spec_clean_row L (columns df))
                    (filter (spec_year_parses L (columns df)) (map snd (rows df))))
       \<and> map fst (rows out) = [0 ..< length (rows out)]"
proof -
  let ?kept = "filter (\<lambda>r. to_numeric L (lookup_cell (columns df) (snd r) (Str ''Year'')) \<noteq> NaN)
                 (rows df)"
  let ?cleaned = "map (\<lambda>r. (fst r, spec_clean_row L (columns df) (snd r))) ?kept"
  let ?keys = "map (\<lambda>r. lookup_cell (columns df) (snd r) (Str ''Year'')) ?cleaned"
  let ?ys = "map ((!) ?keys) (argsort L ?keys)"
  note p = clean_and_sort_returned[OF assms]
  have ki: "\<forall>k \<in> set ?keys. is_integer k"
  proof
    fix k assume "k \<in> set ?keys"
    then obtain r where rr: "r \<in> set ?kept"
      "k = lookup_cell (columns df) (spec_clean_row L (columns df) (snd r)) (Str ''Year'')"
      by auto
    then have "is_finite (to_numeric L (lookup_cell (columns df) (snd r) (Str ''Year'')))"
      using p(2) unfolding list_all_iff by blast
    moreover have "r \<in> set (rows df)" using rr by simp
    ultimately show "is_integer k"
      using cleaned_year_is_integer[OF assms(1) p(1)] rr(2) by blast
  qed
  have kn: "list_all is_number ?keys"
    unfolding list_all_iff
  proof
    fix k assume "k \<in> set ?keys"
    then have "is_integer k" using ki by blast
    then show "is_number k" by (cases k) auto
  qed
  note ap = argsort_props[OF assms(2) kn]
  define keys where "keys = ?keys"
  define ys where "ys = map ((!) keys) (argsort L keys)"
  have ap3: "set (argsort L keys) = {0 ..< length keys}"
    and ap2: "sorted_wrt key_le ys"
    using ap(3) ap(2) by (simp_all only: keys_def ys_def)
  have sub: "set ys \<subseteq> set keys"
  proof
    fix x assume "x \<in> set ys"
    then obtain k where "k \<in> set (argsort L keys)" "x = keys ! k"
      unfolding ys_def by auto
    then show "x \<in> set keys" using ap3 by simp
  qed
  have kik: "\<forall>k \<in> set keys. is_integer k" using ki by (simp only: keys_def)
  have yi: "list_all is_integer ys"
    unfolding list_all_iff using sub kik by blast
  have le: "\<And>a b. is_integer a \<Longrightarrow> is_integer b \<Longrightarrow> key_le a b \<Longrightarrow> year_int a \<le> year_int b"
  proof -
    fix a b assume "is_integer a" "is_integer b" "key_le a b"
    then show "year_int a \<le> year_int b"
      by (cases a rule: is_integer.cases; cases b rule: is_integer.cases)
        (auto intro: floor_mono)
  qed
  have "sorted_wrt (\<lambda>a b. year_int a \<le> year_int b) ys"
  proof (rule sorted_wrt_mono_rel[OF _ ap2])
    fix a b assume "a \<in> set ys" "b \<in> set ys" "key_le a b"
    then show "year_int a \<le> year_int b"
      using yi le unfolding list_all_iff by blast
  qed
  then have so: "sorted (map year_int ys)"
    by (simp only: sorted_map)
  have gy: "getitem out (Str ''Year'') = Inr ys"
    using p(6) by (simp only: keys_def ys_def)
  have first: "\<exists>ys. getitem out (Str ''Year'') = Inr ys \<and> list_all is_integer ys
               \<and> sorted (map year_int ys)"
    by (rule exI[of _ ys]) (simp only: gy yi so simp_thms)
  have m: "mset (argsort L ?keys) = mset [0 ..< length (map snd ?cleaned)]"
    using ap(1) by simp
  have "mset (map snd (rows out)) = mset (map snd ?cleaned)"
    unfolding p(5) by (rule mset_take_permutation[OF m])
  also have "map snd ?cleaned = map (spec_clean_row L (columns df)) (map snd ?kept)"
    by (simp add: comp_def)
  also have "map snd ?kept = filter (spec_year_parses L (columns df)) (map snd (rows df))"
    by (rule kept_rows_as_spec)
  finally have second: "mset (map snd (rows out))
           = mset (map (spec_clean_row L (columns df))
                    (filter (spec_year_parses L (columns df)) (map snd (rows df))))" .
  have third: "map fst (rows out) = [0 ..< length (rows out)]"
    using p(4) p(7) by simp
  show ?thesis using first second third by (simp only: simp_thms)
qed

theorem cleaner_sorts_and_renumbers_witness:
  "wf_frame table_malformed \<and> argsort_ok (argsort sample_lib)
   \<and> clean_and_sort sample_lib table_malformed =
       Inr \<lparr>columns = [Str ''Year'', Str ''Yield''],
            rows = [(0, [Num (Fin 1961), Num (Fin 300)]), (1, [Num (Fin 1962), NaN])]\<rparr>
   \<and> sorted (map year_int [Num (Fin 1961), Num (Fin 1962)])
   \<and> map fst [(0::nat, [Num (Fin 1961), Num (Fin 300)]), (1, [Num (Fin 1962), NaN])] = [0 ..< 2]"
proof -
  let ?out = "\<lparr>columns = [Str ''Year'', Str ''Yield''],
            rows = [(0, [Num (Fin 1961), Num (Fin 300)]), (1, [Num (Fin 1962), NaN])]\<rparr>"
  have w: "wf_frame table_malformed"
    by (simp add: wf_frame_def table_malformed_def)
  have ok: "argsort_ok (argsort sample_lib)"
    by (simp add: sample_lib_def argsort_ok_stable)
  have r: "clean_and_sort sample_lib table_malformed = Inr ?out"
    by (simp add: table_malformed_def sample_lib_def stable_argsort_def parse_decimal_def
        cleaner_defs frame_ops Let_def)
  note t = cleaner_sorts_and_renumbers[OF w ok r]
  have g: "getitem ?out (Str ''Year'') = Inr [Num (Fin 1961), Num (Fin 1962)]"
    by (simp add: getitem_def)
  from t g have "sorted (map year_int [Num (Fin 1961), Num (Fin 1962)])" by auto
  moreover have "map fst [(0::nat, [Num (Fin 1961), Num (Fin 300)]), (1, [Num (Fin 1962), NaN])]
      = [0 ..< 2]" by (simp add: upt_rec)
  ultimately show ?thesis using w ok r by (simp only: simp_thms)
qed

section \<open>Reshape and cleaner together\<close>

lemma process_countries_data_wf:
  assumes c: "set raw_columns \<subseteq> set (columns df)"
    and r: "process_countries_data df country = Inr out"
  shows "wf_frame out"
proof -
  let ?ag = "agg_first (entity_records df country)"
  let ?p = "unstack ?ag"
  obtain t where t: "reset_index (Str ''Year'') ?p = Inr t"
    and o: "getitem_list t (filter (\<lambda>c. c \<in> set (columns t)) cols) = Inr out"
    using r unfolding process_countries_data_eq[OF c] by (auto split: sum.splits)
  let ?ex = "filter (\<lambda>c. c \<in> set (columns t)) cols"
  have "set ?ex \<subseteq> set (columns t)" by auto
  from getitem_list_all_present[OF this] o
  have out: "out = \<lparr>columns = ?ex,
       rows = map (\<lambda>r. (fst r, map (lookup_cell (columns t) (snd r)) ?ex)) (rows t)\<rparr>"
    by simp
  have "distinct cols" by (simp add: cols_def)
  then have "distinct ?ex" by (rule distinct_filter)
  then show ?thesis by (simp add: out wf_frame_def list_all_iff)
qed

lemma nth_map_indices:
  assumes "\<forall>i \<in> set p. i < length xs"
  shows "map ((!) (map f xs)) p = map f (map ((!) xs) p)"
  using assms by (induction p) auto

lemma distinct_map_nth_indices:
  assumes "distinct p" and "\<forall>i \<in> set p. i < length xs" and "distinct xs"
  shows "distinct (map ((!) xs) p)"
  using assms by (auto simp: distinct_map inj_on_def nth_eq_iff_index_eq)

lemma getitem_as_lookup:
  assumes "getitem df c = Inr vs"
  shows "vs = map (\<lambda>r. lookup_cell (columns df) (snd r) c) (rows df)"
  using assms by (cases "col_pos c (columns df)") (auto simp: getitem_def lookup_cell_def)

text \<open>
  The rows of a cleaned table, position by position, are the cleaned images of source
  rows: the surviving rows of the input, rearranged.  When the Years of the input are
  pairwise distinct, so are the Years of these source rows.
\<close>

lemma cleaned_rows_sources:
  assumes w: "wf_frame df" and ok: "argsort_ok (argsort L)"
    and r: "clean_and_sort L df = Inr out"
    and d: "distinct (map (\<lambda>r. lookup_cell (columns df) (snd r) (Str ''Year'')) (rows df))"
  shows "\<exists>src. mset src = mset (filter (spec_year_parses L (columns df)) (map snd (rows df)))
             \<and> distinct (map (\<lambda>r. lookup_cell (columns df) r (Str ''Year'')) src)
             \<and> map snd (rows out) = map (spec_clean_row L (columns df)) src
             \<and> map (\<lambda>r. lookup_cell (columns df) (snd r) (Str ''Year'')) (rows out)
                 = map (\<lambda>r. cast_int L (to_numeric L (lookup_cell (columns df) r (Str ''Year''))))
                     src"
proof -
  let ?kept = "filter (\<lambda>r. to_numeric L (lookup_cell (columns df) (snd r) (Str ''Year'')) \<noteq> NaN)
                 (rows df)"
  let ?cleaned = "map (\<lambda>r. (fst r, spec_clean_row L (columns df) (snd r))) ?kept"
  let ?keys = "map (\<lambda>r. lookup_cell (columns df) (snd r) (Str ''Year'')) ?cleaned"
  let ?yr = "\<lambda>r. lookup_cell (columns df) r (Str ''Year'')"
  note p = clean_and_sort_returned[OF w ok r]
  have kn: "list_all is_number ?keys"
  proof -
    have "\<forall>r \<in> set ?kept. is_number (lookup_cell (columns df)
            (spec_clean_row L (columns df) (snd r)) (Str ''Year''))"
    proof
      fix r assume r: "r \<in> set ?kept"
      then have "is_finite (to_numeric L (lookup_cell (columns df) (snd r) (Str ''Year'')))"
        using p(2) unfolding list_all_iff by blast
      moreover have "r \<in> set (rows df)" using r by simp
      ultimately have "is_integer (lookup_cell (columns df)
            (spec_clean_row L (columns df) (snd r)) (Str ''Year''))"
        using cleaned_year_is_integer[OF w p(1)] by blast
      then show "is_number (lookup_cell (columns df)
            (spec_clean_row L (columns df) (snd r)) (Str ''Year''))"
        by (cases "lookup_cell (columns df) (spec_clean_row L (columns df) (snd r)) (Str ''Year'')")
          auto
    qed
    then show ?thesis by (simp add: list_all_iff)
  qed
  note ap = argsort_props[OF ok kn]
  define ix where "ix = argsort L ?keys"
  define K where "K = map snd ?kept"
  have lk: "length ?keys = length K" by (simp add: K_def)
  have ixm: "mset ix = mset [0 ..< length K]" using ap(1) unfolding ix_def lk .
  have ixs: "\<forall>i \<in> set ix. i < length K" using ap(3) unfolding ix_def lk by auto
  have ixd: "distinct ix"
    using ixm by (metis distinct_upt mset_eq_imp_distinct_iff)
  define src where "src = map ((!) K) ix"
  have c: "map snd ?cleaned = map (spec_clean_row L (columns df)) K"
    by (simp add: K_def comp_def)
  have 1: "mset src = mset (filter (spec_year_parses L (columns df)) (map snd (rows df)))"
  proof -
    have "mset src = mset K" unfolding src_def by (rule mset_take_permutation[OF ixm])
    also have "K = filter (spec_year_parses L (columns df)) (map snd (rows df))"
      unfolding K_def by (rule kept_rows_as_spec)
    finally show ?thesis .
  qed
  have dk: "distinct (map ?yr K)"
  proof -
    have "map ?yr K = map (\<lambda>r. lookup_cell (columns df) (snd r) (Str ''Year'')) ?kept"
      by (simp add: K_def comp_def)
    also have "\<dots> = filter (\<lambda>y. to_numeric L y \<noteq> NaN)
                       (map (\<lambda>r. lookup_cell (columns df) (snd r) (Str ''Year'')) (rows df))"
      by (simp add: filter_map comp_def)
    finally show ?thesis using d by (simp only: distinct_filter)
  qed
  have 2: "distinct (map ?yr src)"
  proof -
    have "map ?yr src = map ((!) (map ?yr K)) ix"
      unfolding src_def by (rule nth_map_indices[OF ixs, symmetric])
    moreover have "distinct (map ((!) (map ?yr K)) ix)"
      by (rule distinct_map_nth_indices[OF ixd _ dk]) (simp add: ixs)
    ultimately show ?thesis by simp
  qed
  have 3: "map snd (rows out) = map (spec_clean_row L (columns df)) src"
    unfolding p(5) c src_def ix_def[symmetric] by (rule nth_map_indices[OF ixs])
  have 4: "map (\<lambda>r. lookup_cell (columns df) (snd r) (Str ''Year'')) (rows out)
             = map (\<lambda>r. cast_int L (to_numeric L (?yr r))) src"
  proof -
    have "map (\<lambda>r. lookup_cell (columns df) (snd r) (Str ''Year'')) (rows out)
            = map ?yr (map snd (rows out))" by (simp add: comp_def)
    also have "\<dots> = map (\<lambda>r. ?yr (spec_clean_row L (columns df) r)) src"
      unfolding 3 by (simp add: comp_def)
    also have "\<dots> = map (\<lambda>r. cast_int L (to_numeric L (?yr r))) src"
    proof (rule map_cong[OF refl])
      fix x assume "x \<in> set src"
      then have "x \<in># mset src" by simp
      then have "x \<in> set (map snd (rows df))" unfolding 1 by simp
      then obtain r where rr: "r \<in> set (rows df)" "x = snd r" by auto
      have "?yr (spec_clean_row L (columns df) x)
              = spec_clean_cell L (Str ''Year'') (?yr x)"
        unfolding spec_clean_row_map_cells rr(2)
        using lookup_map_cells[OF row_length[OF w rr(1)] p(1)] by simp
      then show "?yr (spec_clean_row L (columns df) x) = cast_int L (to_numeric L (?yr x))"
        by (simp add: spec_clean_cell_def)
    qed
    finally show ?thesis .
  qed
  have "mset src = mset (filter (spec_year_parses L (columns df)) (map snd (rows df)))
             \<and> distinct (map (\<lambda>r. lookup_cell (columns df) r (Str ''Year'')) src)
             \<and> map snd (rows out) = map (spec_clean_row L (columns df)) src
             \<and> map (\<lambda>r. lookup_cell (columns df) (snd r) (Str ''Year'')) (rows out)
                 = map (\<lambda>r. cast_int L (to_numeric L (lookup_cell (columns df) r (Str ''Year''))))
                     src"
    using 1 2 3 4 by (simp only: simp_thms)
  then show ?thesis by (rule exI[of _ src])
qed

text \<open>
  C10, as stated, at an input: three records of Ghana whose Years are the texts
  \<^verbatim>\<open>1961\<close>, \<^verbatim>\<open>01961\<close> and \<^verbatim>\<open>n.d.\<close> (the last keeps the column a column of texts).
  The reshaped table has one row for each of the three texts.  The cleaner parses the
  first two to the same number, the integer 1961, and its output has two rows with the
  Year 1961: the duplicate comes from two distinct texts that spell the same number; no
  Year is a number before the cleaner parses it, and nothing is truncated.
\<close>

theorem cleaner_duplicate_years_without_truncation:
  "process_countries_data years_same_number ''Ghana'' =
       Inr \<lparr>columns = [Str ''Year'', Str ''Yield''],
            rows = [(0, [Str ''01961'', Num (Fin 400)]),
                    (1, [Str ''1961'', Num (Fin 300)]),
                    (2, [Str ''n.d.'', Num (Fin 500)])]\<rparr>
   \<and> reshape_and_clean sample_lib years_same_number ''Ghana'' =
       Inr \<lparr>columns = [Str ''Year'', Str ''Yield''],
            rows = [(0, [Num (Fin 1961), Num (Fin 400)]),
                    (1, [Num (Fin 1961), Num (Fin 300)])]\<rparr>
   \<and> to_numeric sample_lib (Str ''01961'') = Num (Fin 1961)
   \<and> to_numeric sample_lib (Str ''1961'') = Num (Fin 1961)
   \<and> cast_int sample_lib (Num (Fin 1961)) = Num (Fin 1961)"
proof -
  have 1: "process_countries_data years_same_number ''Ghana'' =
       Inr \<lparr>columns = [Str ''Year'', Str ''Yield''],
            rows = [(0, [Str ''01961'', Num (Fin 400)]),
                    (1, [Str ''1961'', Num (Fin 300)]),
                    (2, [Str ''n.d.'', Num (Fin 500)])]\<rparr>"
    by (simp add: years_same_number_def reshape_defs frame_ops Let_def)
  have 2: "clean_and_sort sample_lib \<lparr>columns = [Str ''Year'', Str ''Yield''],
            rows = [(0, [Str ''01961'', Num (Fin 400)]),
                    (1, [Str ''1961'', Num (Fin 300)]),
                    (2, [Str ''n.d.'', Num (Fin 500)])]\<rparr> =
       Inr \<lparr>columns = [Str ''Year'', Str ''Yield''],
            rows = [(0, [Num (Fin 1961), Num (Fin 400)]),
                    (1, [Num (Fin 1961), Num (Fin 300)])]\<rparr>"
    by (simp add: sample_lib_def stable_argsort_def parse_decimal_def
        cleaner_defs frame_ops Let_def)
  have 3: "to_numeric sample_lib (Str ''01961'') = Num (Fin 1961)"
    "to_numeric sample_lib (Str ''1961'') = Num (Fin 1961)"
    "cast_int sample_lib (Num (Fin 1961)) = Num (Fin 1961)"
    by (simp_all add: sample_lib_def parse_decimal_def trunc_def)
  show ?thesis using 1 2 3 by (simp add: reshape_and_clean_def)
qed

text \<open>
  C10, amended.  The table returned by the reshape has at most one row per Year value:
  the cells of its Year column are pairwise distinct (the pivot makes Year a unique key).
  So the rows of the cleaned table are, position by position, the cleaned images of
  surviving rows of the reshaped table whose Year values are pairwise distinct, each
  Year being its source Year parsed and cast to an integer: two rows of the cleaned
  table with the same Year come from two distinct Year values that the cleaner maps to
  the same integer (texts that spell the same number, or numbers with the same integer
  part), never from the reshape.  The reshape returns whenever no record of the entity
  has the Element name Year.
\<close>

theorem reshape_year_is_key:
  assumes "wf_frame df" and "set raw_columns \<subseteq> set (columns df)"
    and "argsort_ok (argsort L)"
  shows "(list_all (\<lambda>r. lookup_cell (columns df) (snd r) (Str ''Area'') = Str country
                  \<longrightarrow> lookup_cell (columns df) (snd r) (Str ''Element'') \<noteq> Str ''Year'')
            (rows df)
          \<longrightarrow> (\<exists>out. process_countries_data df country = Inr out))
       \<and> (\<forall>out. process_countries_data df country = Inr out \<longrightarrow>
            (\<exists>ys. getitem out (Str ''Year'') = Inr ys \<and> distinct ys)
          \<and> (\<forall>cleaned. clean_and_sort L out = Inr cleaned \<longrightarrow>
               (\<exists>src. mset src
                        = mset (filter (spec_year_parses L (columns out)) (map snd (rows out)))
                  \<and> distinct (map (\<lambda>r. lookup_cell (columns out) r (Str ''Year'')) src)
                  \<and> map snd (rows cleaned) = map (spec_clean_row L (columns out)) src
                  \<and> map (\<lambda>r. lookup_cell (columns out) (snd r) (Str ''Year'')) (rows cleaned)
                      = map (\<lambda>r. cast_int L (to_numeric L
                                   (lookup_cell (columns out) r (Str ''Year'')))) src)))"
proof (intro conjI allI impI)
  assume "list_all (\<lambda>r. lookup_cell (columns df) (snd r) (Str ''Area'') = Str country
                  \<longrightarrow> lookup_cell (columns df) (snd r) (Str ''Element'') \<noteq> Str ''Year'')
            (rows df)"
  then show "\<exists>out. process_countries_data df country = Inr out"
    by (rule process_countries_data_returns[OF assms(2)])
next
  fix out assume r: "process_countries_data df country = Inr out"
  show "\<exists>ys. getitem out (Str ''Year'') = Inr ys \<and> distinct ys"
    using reshape_year_cells_distinct[OF assms(2) r] .
next
  fix out cleaned
  assume r: "process_countries_data df country = Inr out"
    and c: "clean_and_sort L out = Inr cleaned"
  obtain ys where ys: "getitem out (Str ''Year'') = Inr ys" "distinct ys"
    using reshape_year_cells_distinct[OF assms(2) r] by blast
  have d: "distinct (map (\<lambda>r. lookup_cell (columns out) (snd r) (Str ''Year'')) (rows out))"
    using getitem_as_lookup[OF ys(1)] ys(2) by simp
  show "\<exists>src. mset src
                = mset (filter (spec_year_parses L (columns out)) (map snd (rows out)))
          \<and> distinct (map (\<lambda>r. lookup_cell (columns out) r (Str ''Year'')) src)
          \<and> map snd (rows cleaned) = map (spec_clean_row L (columns out)) src
          \<and> map (\<lambda>r. lookup_cell (columns out) (snd r) (Str ''Year'')) (rows cleaned)
              = map (\<lambda>r. cast_int L (to_numeric L
                           (lookup_cell (columns out) r (Str ''Year'')))) src"
    by (rule cleaned_rows_sources[OF process_countries_data_wf[OF assms(2) r] assms(3) c d])
qed

theorem reshape_year_is_key_witness:
  "wf_frame years_same_number
   \<and> set raw_columns \<subseteq> set (columns years_same_number)
   \<and> argsort_ok (argsort sample_lib)
   \<and> list_all (\<lambda>r. lookup_cell (columns years_same_number) (snd r) (Str ''Area'') = Str ''Ghana''
                  \<longrightarrow> lookup_cell (columns years_same_number) (snd r) (Str ''Element'')
                        \<noteq> Str ''Year'')
        (rows years_same_number)
   \<and> (\<exists>out cleaned. process_countries_data years_same_number ''Ghana'' = Inr out
         \<and> getitem out (Str ''Year'') = Inr [Str ''01961'', Str ''1961'', Str ''n.d.'']
         \<and> distinct [Str ''01961'', Str ''1961'', Str ''n.d.'']
         \<and> clean_and_sort sample_lib out = Inr cleaned
         \<and> (\<exists>src. mset src = {#[Str ''01961'', Num (Fin 400)], [Str ''1961'', Num (Fin 300)]#}
               \<and> distinct (map (\<lambda>r. lookup_cell (columns out) r (Str ''Year'')) src)
               \<and> map snd (rows cleaned) = map (spec_clean_row sample_lib (columns out)) src))"
proof -
  let ?out = "\<lparr>columns = [Str ''Year'', Str ''Yield''],
            rows = [(0::nat, [Str ''01961'', Num (Fin 400)]),
                    (1, [Str ''1961'', Num (Fin 300)]),
                    (2, [Str ''n.d.'', Num (Fin 500)])]\<rparr>"
  let ?cleaned = "\<lparr>columns = [Str ''Year'', Str ''Yield''],
            rows = [(0::nat, [Num (Fin 1961), Num (Fin 400)]),
                    (1, [Num (Fin 1961), Num (Fin 300)])]\<rparr>"
  have w: "wf_frame years_same_number"
    by (simp add: wf_frame_def years_same_number_def raw_columns_def)
  have c: "set raw_columns \<subseteq> set (columns years_same_number)"
    by (simp add: years_same_number_def)
  have ok: "argsort_ok (argsort sample_lib)"
    by (simp add: sample_lib_def argsort_ok_stable)
  have n: "list_all (\<lambda>r. lookup_cell (columns years_same_number) (snd r) (Str ''Area'') = Str ''Ghana''
                  \<longrightarrow> lookup_cell (columns years_same_number) (snd r) (Str ''Element'')
                        \<noteq> Str ''Year'')
        (rows years_same_number)"
    by (simp add: years_same_number_def raw_columns_def lookup_cell_def)
  have o: "process_countries_data years_same_number ''Ghana'' = Inr ?out"
    by (simp add: years_same_number_def reshape_defs frame_ops Let_def)
  have cl: "clean_and_sort sample_lib ?out = Inr ?cleaned"
    by (simp add: sample_lib_def stable_argsort_def parse_decimal_def
        cleaner_defs frame_ops Let_def)
  have g: "getitem ?out (Str ''Year'') = Inr [Str ''01961'', Str ''1961'', Str ''n.d.'']"
    by (simp add: getitem_def)
  note t = reshape_year_is_key[OF w c ok, of "''Ghana''"]
  from t o g have d: "distinct [Str ''01961'', Str ''1961'', Str ''n.d.'']"
    by fastforce
  have f: "filter (spec_year_parses sample_lib (columns ?out)) (map snd (rows ?out))
             = [[Str ''01961'', Num (Fin 400)], [Str ''1961'', Num (Fin 300)]]"
    by (simp add: spec_year_parses_def lookup_cell_def sample_lib_def parse_decimal_def)
  from t o cl obtain src where
    s: "mset src = mset (filter (spec_year_parses sample_lib (columns ?out)) (map snd (rows ?out)))"
       "distinct (map (\<lambda>r. lookup_cell (columns ?out) r (Str ''Year'')) src)"
       "map snd (rows ?cleaned) = map (spec_clean_row sample_lib (columns ?out)) src"
    by blast
  have s1: "mset src = {#[Str ''01961'', Num (Fin 400)], [Str ''1961'', Num (Fin 300)]#}"
    using s(1) unfolding f by simp
  have ex: "\<exists>src. mset src = {#[Str ''01961'', Num (Fin 400)], [Str ''1961'', Num (Fin 300)]#}
               \<and> distinct (map (\<lambda>r. lookup_cell (columns ?out) r (Str ''Year'')) src)
               \<and> map snd (rows ?cleaned) = map (spec_clean_row sample_lib (columns ?out)) src"
    by (rule exI[of _ src], intro conjI, rule s1, rule s(2), rule s(3))
  have body: "process_countries_data years_same_number ''Ghana'' = Inr ?out
         \<and> getitem ?out (Str ''Year'') = Inr [Str ''01961'', Str ''1961'', Str ''n.d.'']
         \<and> distinct [Str ''01961'', Str ''1961'', Str ''n.d.'']
         \<and> clean_and_sort sample_lib ?out = Inr ?cleaned
         \<and> (\<exists>src. mset src = {#[Str ''01961'', Num (Fin 400)], [Str ''1961'', Num (Fin 300)]#}
               \<and> distinct (map (\<lambda>r. lookup_cell (columns ?out) r (Str ''Year'')) src)
               \<and> map snd (rows ?cleaned) = map (spec_clean_row sample_lib (columns ?out)) src)"
    using o g d cl ex by (simp only: simp_thms)
  have "\<exists>out cleaned. process_countries_data years_same_number ''Ghana'' = Inr out
         \<and> getitem out (Str ''Year'') = Inr [Str ''01961'', Str ''1961'', Str ''n.d.'']
         \<and> distinct [Str ''01961'', Str ''1961'', Str ''n.d.'']
         \<and> clean_and_sort sample_lib out = Inr cleaned
         \<and> (\<exists>src. mset src = {#[Str ''01961'', Num (Fin 400)], [Str ''1961'', Num (Fin 300)]#}
               \<and> distinct (map (\<lambda>r. lookup_cell (columns out) r (Str ''Year'')) src)
               \<and> map snd (rows cleaned) = map (spec_clean_row sample_lib (columns out)) src)"
    by (rule exI[of _ ?out], rule exI[of _ ?cleaned], rule body)
  then show ?thesis using w c ok n by (simp only: simp_thms)
qed

section \<open>Tables as objects\<close>

lemma coerce_columns_obj_pure:
  assumes "d < length h"
  shows "\<exists>f. coerce_columns L cs (h ! d) = Inr f \<and> coerce_columns_obj L cs d h = (None, h[d := f])"
  using assms
proof (induction cs arbitrary: h)
  case Nil
  then show ?case by simp
next
  case (Cons c cs)
  show ?case
  proof (cases "c \<in> set (columns (h ! d))")
    case True
    then obtain vs where vs: "getitem (h ! d) c = Inr vs"
      using getitem_present by blast
    let ?h = "h[d := setitem (h ! d) c (map (to_numeric L) vs)]"
    have d: "d < length ?h" using Cons.prems by simp
    from Cons.IH[OF d] obtain f where
      f: "coerce_columns L cs (?h ! d) = Inr f" "coerce_columns_obj L cs d ?h = (None, ?h[d := f])"
      by blast
    have "?h ! d = setitem (h ! d) c (map (to_numeric L) vs)" using Cons.prems by simp
    then show ?thesis using True vs f by (intro exI[of _ f]) simp
  next
    case False
    then show ?thesis using Cons.IH[OF Cons.prems] by simp
  qed
qed

lemma process_countries_data_obj_pure:
  assumes "df < length h"
  shows "case process_countries_data_obj df country h of
           (res, h') \<Rightarrow>
             take (length h) h' = h \<and>
             (case res of
                Inl e \<Rightarrow> process_countries_data (h ! df) country = Inl e
              | Inr p \<Rightarrow> length h \<le> p \<and> p < length h'
                         \<and> process_countries_data (h ! df) country = Inr (h' ! p))"
  using assms
  by (auto simp: process_countries_data_obj_def process_countries_data_def new_def Let_def
      nth_append split: sum.splits)

lemma clean_and_sort_obj_pure:
  assumes "df < length h"
  shows "case clean_and_sort_obj L df h of
           (res, h') \<Rightarrow>
             take (length h) h' = h \<and>
             (case res of
                Inl e \<Rightarrow> clean_and_sort L (h ! df) = Inl e
              | Inr p \<Rightarrow> length h \<le> p \<and> p < length h'
                         \<and> clean_and_sort L (h ! df) = Inr (h' ! p))"
proof -
  let ?h1 = "h @ [h ! df]"
  let ?d = "length h"
  show ?thesis
  proof (cases "getitem (h ! df) (Str ''Year'')")
    case (Inl e)
    then show ?thesis
      by (simp add: clean_and_sort_obj_def clean_and_sort_def new_def)
  next
    case (Inr ys)
    let ?t1 = "setitem (h ! df) (Str ''Year'') (map (to_numeric L) ys)"
    let ?h2 = "?h1[?d := ?t1]"
    have h2: "?h2 = h @ [?t1]" by simp
    show ?thesis
    proof (cases "dropna_subset ?t1 (Str ''Year'')")
      case (Inl e)
      then show ?thesis
        using Inr by (simp add: clean_and_sort_obj_def clean_and_sort_def new_def)
    next
      case d: (Inr f)
      let ?h3 = "h @ [?t1, f]"
      let ?d3 = "Suc (length h)"
      show ?thesis
      proof (cases "getitem f (Str ''Year'')")
        case (Inl e)
        then show ?thesis
          using Inr d by (simp add: clean_and_sort_obj_def clean_and_sort_def new_def nth_append)
      next
        case g: (Inr ys1)
        show ?thesis
        proof (cases "astype_int L ys1")
          case (Inl e)
          then show ?thesis
            using Inr d g
            by (simp add: clean_and_sort_obj_def clean_and_sort_def new_def nth_append)
        next
          case a: (Inr ys2)
          let ?t3 = "setitem f (Str ''Year'') ys2"
          let ?h4 = "h @ [?t1, ?t3]"
          have l4: "?d3 < length ?h4" by simp
          have n4: "?h4 ! ?d3 = ?t3" by (simp add: nth_append)
          from coerce_columns_obj_pure[OF l4, of L metrics] obtain t4 where
            t4: "coerce_columns L metrics ?t3 = Inr t4"
              "coerce_columns_obj L metrics ?d3 ?h4 = (None, ?h4[?d3 := t4])"
            unfolding n4 by blast
          have h5: "?h4[?d3 := t4] = h @ [?t1, t4]" by (simp add: list_update_append)
          show ?thesis
          proof (cases "sort_values L t4 (Str ''Year'')")
            case (Inl e)
            then show ?thesis
              using Inr d g a t4 h5
              by (simp add: clean_and_sort_obj_def clean_and_sort_def new_def nth_append
                  list_update_append)
          next
            case s: (Inr t5)
            then show ?thesis
              using Inr d g a t4 h5
              by (simp add: clean_and_sort_obj_def clean_and_sort_def new_def nth_append
                  list_update_append)
          qed
        qed
      qed
    qed
  qed
qed

text \<open>
  C9.  With the tables as objects in a store: a call of the reshape or of the cleaner on
  a table of the store leaves every object that existed before the call as it was, the
  argument among them, also when the call raises; and the table it returns is a new
  object, which holds what the function computes from the argument.
\<close>

theorem transforms_return_new_tables:
  assumes "df < length h"
  shows "(case process_countries_data_obj df country h of
            (res, h') \<Rightarrow>
              take (length h) h' = h \<and>
              (case res of
                 Inl e \<Rightarrow> process_countries_data (h ! df) country = Inl e
               | Inr p \<Rightarrow> length h \<le> p \<and> p < length h'
                          \<and> process_countries_data (h ! df) country = Inr (h' ! p)))
       \<and> (case clean_and_sort_obj L df h of
            (res, h') \<Rightarrow>
              take (length h) h' = h \<and>
              (case res of
                 Inl e \<Rightarrow> clean_and_sort L (h ! df) = Inl e
               | Inr p \<Rightarrow> length h \<le> p \<and> p < length h'
                          \<and> clean_and_sort L (h ! df) = Inr (h' ! p)))"
  using process_countries_data_obj_pure[OF assms] clean_and_sort_obj_pure[OF assms]
  by (rule conjI)

theorem transforms_return_new_tables_witness:
  "(0::nat) < length sample_store \<and> (1::nat) < length sample_store
   \<and> fst (process_countries_data_obj 0 ''Ghana'' sample_store) = Inr 6
   \<and> take 2 (snd (process_countries_data_obj 0 ''Ghana'' sample_store)) = sample_store
   \<and> snd (process_countries_data_obj 0 ''Ghana'' sample_store) ! 6 =
       \<lparr>columns = [Str ''Year'', Str ''Area harvested'', Str ''Yield''],
        rows = [(0, [Num (Fin 1961), Num (Fin 100), Num (Fin 300)])]\<rparr>
   \<and> fst (clean_and_sort_obj sample_lib 1 sample_store) = Inr 5
   \<and> take 2 (snd (clean_and_sort_obj sample_lib 1 sample_store)) = sample_store
   \<and> snd (clean_and_sort_obj sample_lib 1 sample_store) ! 5 =
       \<lparr>columns = [Str ''Year'', Str ''Yield''],
        rows = [(0, [Num (Fin 1961), Num (Fin 300)]), (1, [Num (Fin 1962), NaN])]\<rparr>"
proof -
  have l: "(0::nat) < length sample_store" "(1::nat) < length sample_store"
    by (simp_all add: sample_store_def)
  have n: "sample_store ! 0 = scenario_numeric" "sample_store ! 1 = table_malformed"
    "length sample_store = 2"
    by (simp_all add: sample_store_def)
  have p: "process_countries_data scenario_numeric ''Ghana'' =
     Inr \<lparr>columns = [Str ''Year'', Str ''Area harvested'', Str ''Yield''],
          rows = [(0, [Num (Fin 1961), Num (Fin 100), Num (Fin 300)])]\<rparr>"
    by (rule process_scenario_numeric)
  have c: "clean_and_sort sample_lib table_malformed =
       Inr \<lparr>columns = [Str ''Year'', Str ''Yield''],
            rows = [(0, [Num (Fin 1961), Num (Fin 300)]), (1, [Num (Fin 1962), NaN])]\<rparr>"
    by (simp add: table_malformed_def sample_lib_def stable_argsort_def parse_decimal_def
        cleaner_defs frame_ops Let_def)
  have a: "fst (process_countries_data_obj 0 ''Ghana'' sample_store) = Inr 6"
    by (simp add: process_countries_data_obj_def new_def sample_store_def scenario_numeric_def
        reshape_defs frame_ops Let_def)
  have b: "fst (clean_and_sort_obj sample_lib 1 sample_store) = Inr 5"
    by (simp add: clean_and_sort_obj_def new_def sample_store_def table_malformed_def
        sample_lib_def stable_argsort_def parse_decimal_def cleaner_defs frame_ops Let_def)
  note t0 = transforms_return_new_tables[OF l(1), of "''Ghana''" sample_lib]
  note t1 = transforms_return_new_tables[OF l(2), of "''Ghana''" sample_lib]
  have r0: "take 2 (snd (process_countries_data_obj 0 ''Ghana'' sample_store)) = sample_store
    \<and> snd (process_countries_data_obj 0 ''Ghana'' sample_store) ! 6 =
       \<lparr>columns = [Str ''Year'', Str ''Area harvested'', Str ''Yield''],
        rows = [(0, [Num (Fin 1961), Num (Fin 100), Num (Fin 300)])]\<rparr>"
    using t0 a p n by (auto split: prod.splits)
  have r1: "take 2 (snd (clean_and_sort_obj sample_lib 1 sample_store)) = sample_store
    \<and> snd (clean_and_sort_obj sample_lib 1 sample_store) ! 5 =
       \<lparr>columns = [Str ''Year'', Str ''Yield''],
        rows = [(0, [Num (Fin 1961), Num (Fin 300)]), (1, [Num (Fin 1962), NaN])]\<rparr>"
    using t1 b c n by (auto split: prod.splits)
  show ?thesis using l a b r0 r1 by (simp only: simp_thms)
qed


end
